theory Spec2Isabelle
  imports Main "HOL-Library.Word"
begin

unbundle bit_operations_syntax

section \<open>Selector manipulation (memory/selector.c): data model\<close>

text \<open>
  The C types of the source on i386: \<open>WORD\<close> is an unsigned 16-bit integer,
  \<open>DWORD\<close> and \<open>unsigned long\<close> are unsigned 32-bit integers, \<open>unsigned char\<close>
  has 8 bits, and a linear pointer (\<open>void *\<close>, \<open>LPVOID\<close>) is a 32-bit address.
  A \<open>SEGPTR\<close> is a \<open>DWORD\<close> holding the selector in its high word and the offset
  in its low word.
\<close>

type_synonym WORD = "16 word"
type_synonym DWORD = "32 word"
type_synonym UCHAR = "8 word"
type_synonym LPVOID = "32 word"
type_synonym SEGPTR = "32 word"

text \<open>\<open>#define LDT_SIZE 8192\<close> (selector.c, line 21).\<close>

definition LDT_SIZE :: nat where
  "LDT_SIZE = 8192"

text \<open>
  Modelled from the spec: the constants \<open>__AHSHIFT\<close>, \<open>FIRST_LDT_ENTRY_TO_ALLOC\<close> and
  \<open>WINE_LDT_FLAGS_*\<close> are declared in the headers ldt.h and selectors.h, which are not
  among the sources verified here. The selector layout (slot number in the bits above the
  low three) and the flag values are those of the i386 descriptor format that the source
  manipulates: it returns \<open>(sel << __AHSHIFT) | 7\<close>, tests \<open>Type & 0x10\<close> for a
  non-system descriptor, \<open>(Type ^ CODE) & 0x18\<close> for a code segment and
  \<open>(Type ^ DATA) & ~5\<close> for a writable data segment, and toggles the executable bit with
  \<open>CODE ^ DATA\<close>. The spec requires of the reserved boundary only that it be positive;
  the general proofs below use no more of its value than
  \<open>0 < FIRST_LDT_ENTRY_TO_ALLOC\<close> and \<open>FIRST_LDT_ENTRY_TO_ALLOC < LDT_SIZE\<close>.
\<close>

definition AHSHIFT :: nat where
  "AHSHIFT = 3"

definition FIRST_LDT_ENTRY_TO_ALLOC :: nat where
  "FIRST_LDT_ENTRY_TO_ALLOC = 17"

definition WINE_LDT_FLAGS_DATA :: UCHAR where
  "WINE_LDT_FLAGS_DATA = 0x13"

definition WINE_LDT_FLAGS_CODE :: UCHAR where
  "WINE_LDT_FLAGS_CODE = 0x1b"

definition WINE_LDT_FLAGS_32BIT :: UCHAR where
  "WINE_LDT_FLAGS_32BIT = 0x40"

definition WINE_LDT_FLAGS_ALLOCATED :: UCHAR where
  "WINE_LDT_FLAGS_ALLOCATED = 0x80"

text \<open>
  \<open>wine_ldt_copy\<close>: the process-wide copy of the descriptor table, three parallel arrays
  of \<open>LDT_SIZE\<close> entries. The arrays are functions of the slot number; every access of
  the source is at a slot number below \<open>LDT_SIZE\<close> (a 16-bit selector shifted right by
  three, or an index bounded by the loops).
\<close>

record ldt_copy =
  ldt_base :: "nat \<Rightarrow> LPVOID"
  ldt_limit :: "nat \<Rightarrow> DWORD"
  ldt_flags :: "nat \<Rightarrow> UCHAR"

text \<open>
  Modelled from the spec: \<open>LDT_ENTRY\<close> and its accessors \<open>wine_ldt_set_base\<close>,
  \<open>wine_ldt_get_base\<close>, \<open>wine_ldt_set_limit\<close>, \<open>wine_ldt_get_limit\<close>,
  \<open>wine_ldt_set_flags\<close>, \<open>wine_ldt_get_flags\<close>, \<open>wine_ldt_get_entry\<close> and
  \<open>wine_ldt_set_entry\<close> are declared in ldt.h, which is not among the sources verified
  here. The descriptor is the (base, limit, flags) record of the spec in the i386 layout
  whose fields the source names (\<open>BaseLow\<close>, \<open>BaseMid\<close>, \<open>BaseHi\<close>, \<open>LimitLow\<close>,
  \<open>LimitHi\<close>, \<open>Granularity\<close>, \<open>Type\<close>, \<open>Default_Big\<close>); \<open>GetThreadSelectorEntry\<close>
  writes the flat 4 GB segment as \<open>LimitLow = 0xffff\<close>, \<open>LimitHi = 0xf\<close>,
  \<open>Granularity = 1\<close>. So a limit has 20 bits and a granularity bit: a limit of 0x100000
  or more is stored in 4 KB pages with \<open>Granularity\<close> set and reads back with its low
  twelve bits set. The three base fields are kept as one 32-bit value and the two limit
  fields as one value below \<open>2^20\<close>; \<open>Type\<close> is a 5-bit field, and the 32-bit flag
  0x40 of the flags byte is the \<open>Default_Big\<close> bit. The other fields of the descriptor
  (\<open>Dpl\<close>, \<open>Pres\<close>, \<open>Sys\<close>) are not stored in the table copy and are left out.
\<close>

record LDT_ENTRY =
  Base :: LPVOID
  Limit :: DWORD
  Granularity :: bool
  Type :: UCHAR
  Default_Big :: bool

definition zero_entry :: LDT_ENTRY where
  "zero_entry = \<lparr>Base = 0, Limit = 0, Granularity = False, Type = 0, Default_Big = False\<rparr>"

definition wine_ldt_set_base :: "LDT_ENTRY \<Rightarrow> LPVOID \<Rightarrow> LDT_ENTRY" where
  "wine_ldt_set_base ent b = ent\<lparr>Base := b\<rparr>"

definition wine_ldt_get_base :: "LDT_ENTRY \<Rightarrow> LPVOID" where
  "wine_ldt_get_base ent = Base ent"

definition wine_ldt_set_limit :: "LDT_ENTRY \<Rightarrow> DWORD \<Rightarrow> LDT_ENTRY" where
  "wine_ldt_set_limit ent l =
     (if 0x100000 \<le> l then ent\<lparr>Granularity := True, Limit := drop_bit 12 l\<rparr>
      else ent\<lparr>Granularity := False, Limit := l\<rparr>)"

definition wine_ldt_get_limit :: "LDT_ENTRY \<Rightarrow> DWORD" where
  "wine_ldt_get_limit ent =
     (if Granularity ent then push_bit 12 (Limit ent) OR 0xfff else Limit ent)"

definition wine_ldt_set_flags :: "LDT_ENTRY \<Rightarrow> UCHAR \<Rightarrow> LDT_ENTRY" where
  "wine_ldt_set_flags ent f =
     ent\<lparr>Type := f AND 0x1f, Default_Big := (f AND WINE_LDT_FLAGS_32BIT \<noteq> 0)\<rparr>"

definition wine_ldt_get_flags :: "LDT_ENTRY \<Rightarrow> UCHAR" where
  "wine_ldt_get_flags ent =
     (if Default_Big ent then Type ent OR WINE_LDT_FLAGS_32BIT else Type ent)"

text \<open>\<open>sel >> __AHSHIFT\<close>: the slot number of a selector.\<close>

definition sel_index :: "WORD \<Rightarrow> nat" where
  "sel_index sel = unat (drop_bit AHSHIFT sel)"

definition wine_ldt_get_entry :: "ldt_copy \<Rightarrow> WORD \<Rightarrow> LDT_ENTRY" where
  "wine_ldt_get_entry t sel =
     (let index = sel_index sel in
      wine_ldt_set_flags
        (wine_ldt_set_limit (wine_ldt_set_base zero_entry (ldt_base t index)) (ldt_limit t index))
        (ldt_flags t index))"

text \<open>
  \<open>wine_ldt_set_entry\<close> leaves slot 0 alone (the null selector's entry is never
  modified); for any other slot it stores base, limit and type flags in the copy and keeps
  the slot's allocation bit. The system call that updates the processor's own table is
  taken to succeed.
\<close>

definition wine_ldt_set_entry :: "ldt_copy \<Rightarrow> WORD \<Rightarrow> LDT_ENTRY \<Rightarrow> ldt_copy" where
  "wine_ldt_set_entry t sel ent =
     (let index = sel_index sel in
      if index = 0 then t
      else t\<lparr>ldt_base := (ldt_base t)(index := wine_ldt_get_base ent),
             ldt_limit := (ldt_limit t)(index := wine_ldt_get_limit ent),
             ldt_flags := (ldt_flags t)(index :=
                wine_ldt_get_flags ent OR (ldt_flags t index AND WINE_LDT_FLAGS_ALLOCATED))\<rparr>)"

text \<open>
  \<open>IS_SELECTOR_FREE(sel)\<close> (a macro of the missing header, modelled from the spec's
  \<open>allocated\<close> bit): the slot's allocation bit is clear.
\<close>

definition IS_SELECTOR_FREE :: "ldt_copy \<Rightarrow> WORD \<Rightarrow> bool" where
  "IS_SELECTOR_FREE t sel = (ldt_flags t (sel_index sel) AND WINE_LDT_FLAGS_ALLOCATED = 0)"

text \<open>\<open>SELECTOROF\<close>, \<open>OFFSETOF\<close>, \<open>HIWORD\<close> and \<open>PTR_SEG_OFF_TO_SEGPTR\<close>.\<close>

definition HIWORD :: "DWORD \<Rightarrow> WORD" where
  "HIWORD p = ucast (drop_bit 16 p)"

definition SELECTOROF :: "SEGPTR \<Rightarrow> WORD" where
  "SELECTOROF p = HIWORD p"

definition OFFSETOF :: "SEGPTR \<Rightarrow> WORD" where
  "OFFSETOF p = ucast p"

definition PTR_SEG_OFF_TO_SEGPTR :: "WORD \<Rightarrow> WORD \<Rightarrow> SEGPTR" where
  "PTR_SEG_OFF_TO_SEGPTR seg off = push_bit 16 (ucast seg) OR ucast off"

section \<open>The functions of selector.c\<close>

text \<open>\<open>get_sel_count\<close>: the number of selectors needed to cover up to the selector limit.\<close>

definition get_sel_count :: "ldt_copy \<Rightarrow> WORD \<Rightarrow> WORD" where
  "get_sel_count t sel = ucast (drop_bit 16 (ldt_limit t (sel_index sel))) + 1"

text \<open>
  \<open>SELECTOR_AllocArray\<close>. The first loop scans the slots upward from
  \<open>FIRST_LDT_ENTRY_TO_ALLOC\<close> and returns the loop variables \<open>(i, size)\<close> at its exit (\<open>size\<close> is \<open>sz\<close> here);
  both stay at most \<open>LDT_SIZE\<close>, so they are natural numbers here. The second loop
  marks the run.
\<close>

function AllocArray_scan :: "ldt_copy \<Rightarrow> WORD \<Rightarrow> nat \<Rightarrow> nat \<Rightarrow> nat \<times> nat" where
  "AllocArray_scan t count i sz =
     (if i < LDT_SIZE then
        (if ldt_flags t i AND WINE_LDT_FLAGS_ALLOCATED \<noteq> 0 then AllocArray_scan t count (i + 1) 0
         else if unat count \<le> sz + 1 then (i, sz + 1)
         else AllocArray_scan t count (i + 1) (sz + 1))
      else (i, sz))"
  by pat_completeness auto
termination
  by (relation "measure (\<lambda>(t, count, i, sz). LDT_SIZE - i)") auto

function AllocArray_mark :: "ldt_copy \<Rightarrow> nat \<Rightarrow> nat \<Rightarrow> nat \<Rightarrow> ldt_copy" where
  "AllocArray_mark t sel i count =
     (if i < count then
        AllocArray_mark
          (t\<lparr>ldt_flags := (ldt_flags t)(sel + i := ldt_flags t (sel + i) OR WINE_LDT_FLAGS_ALLOCATED)\<rparr>)
          sel (i + 1) count
      else t)"
  by pat_completeness auto
termination
  by (relation "measure (\<lambda>(t, sel, i, count). count - i)") auto

definition SELECTOR_AllocArray :: "ldt_copy \<Rightarrow> WORD \<Rightarrow> ldt_copy \<times> WORD" where
  "SELECTOR_AllocArray t count =
     (if count = 0 then (t, 0)
      else case AllocArray_scan t count FIRST_LDT_ENTRY_TO_ALLOC 0 of
        (i, sz) \<Rightarrow>
          if i = LDT_SIZE then (t, 0)
          else let sel = i - sz + 1
               in (AllocArray_mark t sel 0 (unat count), push_bit AHSHIFT (of_nat sel) OR 7))"

text \<open>
  \<open>FreeSelector16\<close>. A free selector is returned as it is (the error return). Otherwise
  the entry is cleared (\<open>memset\<close> to zero, then \<open>wine_ldt_set_entry\<close>) and the allocation
  bit is removed. The i386 part that resets the \<open>%fs\<close> and \<open>%gs\<close> registers touches no
  table state and is left out.
\<close>

definition FreeSelector16 :: "ldt_copy \<Rightarrow> WORD \<Rightarrow> ldt_copy \<times> WORD" where
  "FreeSelector16 t sel =
     (if IS_SELECTOR_FREE t sel then (t, sel)
      else let t1 = wine_ldt_set_entry t sel zero_entry;
               index = sel_index sel
           in (t1\<lparr>ldt_flags := (ldt_flags t1)(index :=
                   ldt_flags t1 index AND NOT WINE_LDT_FLAGS_ALLOCATED)\<rparr>, 0))"

text \<open>
  \<open>SELECTOR_SetEntries\<close>: the loop writes the entry to selector \<open>sel + (i << __AHSHIFT)\<close>
  and then moves base and limit of the entry by one window (\<open>next_window\<close>, the two
  statements that close the loop body). \<open>SetEntries_first\<close> is the entry built before
  the loop.
\<close>

definition next_window :: "LDT_ENTRY \<Rightarrow> LDT_ENTRY" where
  "next_window entry =
     wine_ldt_set_limit
       (wine_ldt_set_base entry (wine_ldt_get_base entry + 0x10000))
       (wine_ldt_get_limit entry - 0x10000)"

function SetEntries_loop :: "ldt_copy \<Rightarrow> WORD \<Rightarrow> LDT_ENTRY \<Rightarrow> nat \<Rightarrow> nat \<Rightarrow> ldt_copy" where
  "SetEntries_loop t sel entry i count =
     (if i < count then
        SetEntries_loop
          (wine_ldt_set_entry t (sel + push_bit AHSHIFT (of_nat i)) entry) sel
          (next_window entry) (i + 1) count
      else t)"
  by pat_completeness auto
termination
  by (relation "measure (\<lambda>(t, sel, entry, i, count). count - i)") auto

definition SetEntries_first :: "LPVOID \<Rightarrow> DWORD \<Rightarrow> UCHAR \<Rightarrow> LDT_ENTRY" where
  "SetEntries_first b sz flags =
     (let entry = wine_ldt_set_flags
                    (wine_ldt_set_limit (wine_ldt_set_base zero_entry b) (sz - 1)) flags
      in if b = 0 \<and> sz = 1 then wine_ldt_set_limit entry 1 else entry)"

definition SELECTOR_SetEntries :: "ldt_copy \<Rightarrow> WORD \<Rightarrow> LPVOID \<Rightarrow> DWORD \<Rightarrow> UCHAR \<Rightarrow> ldt_copy" where
  "SELECTOR_SetEntries t sel b sz flags =
     (let count = (ucast ((sz + 0xffff) div 0x10000) :: WORD)
      in SetEntries_loop t sel (SetEntries_first b sz flags) 0 (unat count))"

definition SELECTOR_AllocBlock :: "ldt_copy \<Rightarrow> LPVOID \<Rightarrow> DWORD \<Rightarrow> UCHAR \<Rightarrow> ldt_copy \<times> WORD" where
  "SELECTOR_AllocBlock t b sz flags =
     (if sz = 0 then (t, 0)
      else let count = (ucast ((sz + 0xffff) div 0x10000) :: WORD)
           in case SELECTOR_AllocArray t count of
                (t1, sel) \<Rightarrow> (if sel \<noteq> 0 then SELECTOR_SetEntries t1 sel b sz flags else t1, sel))"

text \<open>
  \<open>SELECTOR_FreeBlock\<close>: the loop \<open>for (i = 0; i < count; i++) FreeSelector16(sel + (i << __AHSHIFT))\<close>,
  run with the count that \<open>get_sel_count\<close> reads from the first slot's limit.
\<close>

function FreeBlock_loop :: "ldt_copy \<Rightarrow> WORD \<Rightarrow> nat \<Rightarrow> nat \<Rightarrow> ldt_copy" where
  "FreeBlock_loop t sel i count =
     (if i < count then
        FreeBlock_loop (fst (FreeSelector16 t (sel + push_bit AHSHIFT (of_nat i)))) sel (i + 1) count
      else t)"
  by pat_completeness auto
termination
  by (relation "measure (\<lambda>(t, sel, i, count). count - i)") auto

definition SELECTOR_FreeBlock :: "ldt_copy \<Rightarrow> WORD \<Rightarrow> ldt_copy" where
  "SELECTOR_FreeBlock t sel = FreeBlock_loop t sel 0 (unat (get_sel_count t sel))"

text \<open>
  \<open>SELECTOR_ReallocBlock\<close>. \<open>Realloc_check\<close> is the loop that looks for an allocated slot
  among the next ones and returns \<open>i\<close> at its exit; \<open>Realloc_mark\<close> marks them.
\<close>

function Realloc_check :: "ldt_copy \<Rightarrow> nat \<Rightarrow> nat \<Rightarrow> nat \<Rightarrow> nat" where
  "Realloc_check t index i newcount =
     (if i < newcount then
        (if ldt_flags t (index + i) AND WINE_LDT_FLAGS_ALLOCATED \<noteq> 0 then i
         else Realloc_check t index (i + 1) newcount)
      else i)"
  by pat_completeness auto
termination
  by (relation "measure (\<lambda>(t, index, i, newcount). newcount - i)") auto

function Realloc_mark :: "ldt_copy \<Rightarrow> nat \<Rightarrow> nat \<Rightarrow> nat \<Rightarrow> ldt_copy" where
  "Realloc_mark t index i newcount =
     (if i < newcount then
        Realloc_mark
          (t\<lparr>ldt_flags := (ldt_flags t)(index + i :=
               ldt_flags t (index + i) OR WINE_LDT_FLAGS_ALLOCATED)\<rparr>)
          index (i + 1) newcount
      else t)"
  by pat_completeness auto
termination
  by (relation "measure (\<lambda>(t, index, i, newcount). newcount - i)") auto

definition SELECTOR_ReallocBlock :: "ldt_copy \<Rightarrow> WORD \<Rightarrow> LPVOID \<Rightarrow> DWORD \<Rightarrow> ldt_copy \<times> WORD" where
  "SELECTOR_ReallocBlock t sel b sz0 =
     (let sz = (if sz0 = 0 then 1 else sz0);
          oldcount = get_sel_count t sel;
          newcount = (ucast (drop_bit 16 (sz + 0xffff)) :: WORD);
          entry = wine_ldt_get_entry t sel;
          (t1, sel1) =
            (if oldcount < newcount then
               let index = sel_index sel;
                   i = (if LDT_SIZE < index + unat newcount then unat oldcount
                        else Realloc_check t index (unat oldcount) (unat newcount))
               in if i < unat newcount
                  then SELECTOR_AllocArray (SELECTOR_FreeBlock t sel) newcount
                  else (Realloc_mark t index (unat oldcount) (unat newcount), sel)
             else if newcount < oldcount
                  then (SELECTOR_FreeBlock t (sel + push_bit AHSHIFT newcount), sel)
             else (t, sel))
      in (if sel1 \<noteq> 0 then SELECTOR_SetEntries t1 sel1 b sz (wine_ldt_get_flags entry) else t1,
          sel1))"

text \<open>\<open>AllocCStoDSAlias16\<close> and \<open>AllocDStoCSAlias16\<close>.\<close>

definition AllocCStoDSAlias16 :: "ldt_copy \<Rightarrow> WORD \<Rightarrow> ldt_copy \<times> WORD" where
  "AllocCStoDSAlias16 t sel =
     (case SELECTOR_AllocArray t 1 of
        (t1, newsel) \<Rightarrow>
          if newsel = 0 then (t1, 0)
          else let entry = wine_ldt_get_entry t1 sel;
                   entry = entry\<lparr>Type := WINE_LDT_FLAGS_DATA\<rparr>
               in (wine_ldt_set_entry t1 newsel entry, newsel))"

definition AllocDStoCSAlias16 :: "ldt_copy \<Rightarrow> WORD \<Rightarrow> ldt_copy \<times> WORD" where
  "AllocDStoCSAlias16 t sel =
     (case SELECTOR_AllocArray t 1 of
        (t1, newsel) \<Rightarrow>
          if newsel = 0 then (t1, 0)
          else let entry = wine_ldt_get_entry t1 sel;
                   entry = entry\<lparr>Type := WINE_LDT_FLAGS_CODE\<rparr>
               in (wine_ldt_set_entry t1 newsel entry, newsel))"

text \<open>\<open>GetSelectorLimit16\<close>.\<close>

definition GetSelectorLimit16 :: "ldt_copy \<Rightarrow> WORD \<Rightarrow> DWORD" where
  "GetSelectorLimit16 t sel = ldt_limit t (sel_index sel)"

text \<open>
  \<open>IsBadCodePtr16\<close>, \<open>IsBadHugeReadPtr16\<close> and \<open>IsBadHugeWritePtr16\<close>: \<open>True\<close> is the
  answer "bad pointer". The offset is promoted to 32 bits and \<open>offset + size - 1\<close> is
  computed in unsigned 32-bit arithmetic.
\<close>

definition IsBadCodePtr16 :: "ldt_copy \<Rightarrow> SEGPTR \<Rightarrow> bool" where
  "IsBadCodePtr16 t lpfn =
     (let sel = SELECTOROF lpfn in
      if sel = 0 then True
      else if IS_SELECTOR_FREE t sel then True
      else let entry = wine_ldt_get_entry t sel in
        if (Type entry XOR WINE_LDT_FLAGS_CODE) AND 0x18 \<noteq> 0 then True
        else if wine_ldt_get_limit entry < ucast (OFFSETOF lpfn) then True
        else False)"

definition IsBadHugeReadPtr16 :: "ldt_copy \<Rightarrow> SEGPTR \<Rightarrow> DWORD \<Rightarrow> bool" where
  "IsBadHugeReadPtr16 t p sz =
     (let sel = SELECTOROF p in
      if sel = 0 then True
      else if IS_SELECTOR_FREE t sel then True
      else let entry = wine_ldt_get_entry t sel in
        if Type entry AND 0x10 = 0 then True
        else if Type entry AND 0x0a = 0x08 then True
        else if sz \<noteq> 0 \<and> wine_ldt_get_limit entry < ucast (OFFSETOF p) + sz - 1 then True
        else False)"

definition IsBadHugeWritePtr16 :: "ldt_copy \<Rightarrow> SEGPTR \<Rightarrow> DWORD \<Rightarrow> bool" where
  "IsBadHugeWritePtr16 t p sz =
     (let sel = SELECTOROF p in
      if sel = 0 then True
      else if IS_SELECTOR_FREE t sel then True
      else let entry = wine_ldt_get_entry t sel in
        if (Type entry XOR WINE_LDT_FLAGS_DATA) AND NOT 5 \<noteq> 0 then True
        else if sz \<noteq> 0 \<and> wine_ldt_get_limit entry < ucast (OFFSETOF p) + sz - 1 then True
        else False)"

text \<open>
  \<open>MemoryRead16\<close> and \<open>MemoryWrite16\<close>. Linear memory is a function from 32-bit
  addresses to bytes. \<open>memcpy m dst src n\<close> is the memory after copying the \<open>n\<close> bytes at
  \<open>src\<close> to \<open>dst\<close> (the two ranges do not overlap in a defined call). Both functions
  return the new memory and the returned byte count; \<open>clamp_count\<close> is the adjustment
  of \<open>count\<close> that both functions make before the copy.
\<close>

type_synonym memory = "LPVOID \<Rightarrow> 8 word"

definition memcpy :: "memory \<Rightarrow> LPVOID \<Rightarrow> LPVOID \<Rightarrow> DWORD \<Rightarrow> memory" where
  "memcpy m dst src n = (\<lambda>a. if a - dst < n then m (src + (a - dst)) else m a)"

definition clamp_count :: "ldt_copy \<Rightarrow> nat \<Rightarrow> DWORD \<Rightarrow> DWORD \<Rightarrow> DWORD" where
  "clamp_count t index offset count =
     (if ldt_limit t index + 1 < offset + count then ldt_limit t index + 1 - offset else count)"

definition MemoryRead16 :: "ldt_copy \<Rightarrow> memory \<Rightarrow> WORD \<Rightarrow> DWORD \<Rightarrow> LPVOID \<Rightarrow> DWORD \<Rightarrow> memory \<times> DWORD" where
  "MemoryRead16 t m sel offset buffer count =
     (let index = sel_index sel in
      if ldt_flags t index AND WINE_LDT_FLAGS_ALLOCATED = 0 then (m, 0)
      else if ldt_limit t index < offset then (m, 0)
      else let count1 = clamp_count t index offset count
           in (memcpy m buffer (ldt_base t index + offset) count1, count1))"

definition MemoryWrite16 :: "ldt_copy \<Rightarrow> memory \<Rightarrow> WORD \<Rightarrow> DWORD \<Rightarrow> LPVOID \<Rightarrow> DWORD \<Rightarrow> memory \<times> DWORD" where
  "MemoryWrite16 t m sel offset buffer count =
     (let index = sel_index sel in
      if ldt_flags t index AND WINE_LDT_FLAGS_ALLOCATED = 0 then (m, 0)
      else if ldt_limit t index < offset then (m, 0)
      else let count1 = clamp_count t index offset count
           in (memcpy m (ldt_base t index + offset) buffer count1, count1))"

text \<open>\<open>MapSL\<close>, \<open>MapLS\<close> and \<open>UnMapLS\<close>.\<close>

definition MapSL :: "ldt_copy \<Rightarrow> SEGPTR \<Rightarrow> LPVOID" where
  "MapSL t sptr = ldt_base t (sel_index (SELECTOROF sptr)) + ucast (OFFSETOF sptr)"

definition MapLS :: "ldt_copy \<Rightarrow> LPVOID \<Rightarrow> ldt_copy \<times> SEGPTR" where
  "MapLS t p =
     (if HIWORD p = 0 then (t, p)
      else case SELECTOR_AllocBlock t p 0x10000 WINE_LDT_FLAGS_DATA of
             (t1, sel) \<Rightarrow> (t1, PTR_SEG_OFF_TO_SEGPTR sel 0))"

definition UnMapLS :: "ldt_copy \<Rightarrow> SEGPTR \<Rightarrow> ldt_copy" where
  "UnMapLS t sptr =
     (if SELECTOROF sptr \<noteq> 0 then fst (FreeSelector16 t (SELECTOROF sptr)) else t)"

section \<open>Derived notions and test tables\<close>

text \<open>The spec's \<open>allocated\<close> bit of a slot: \<open>flags[k] & WINE_LDT_FLAGS_ALLOCATED\<close>.\<close>

definition allocated :: "ldt_copy \<Rightarrow> nat \<Rightarrow> bool" where
  "allocated t k = (ldt_flags t k AND WINE_LDT_FLAGS_ALLOCATED \<noteq> 0)"

text \<open>
  The entry that \<open>SELECTOR_SetEntries\<close> writes for window \<open>k\<close>: \<open>k\<close> steps of
  \<open>next_window\<close> from the first entry.
\<close>

primrec window_entry :: "LDT_ENTRY \<Rightarrow> nat \<Rightarrow> LDT_ENTRY" where
  "window_entry e 0 = e"
| "window_entry e (Suc k) = next_window (window_entry e k)"

text \<open>
  What \<open>wine_ldt_get_limit\<close> reads back after \<open>wine_ldt_set_limit\<close>: a limit of
  0x100000 or more is kept in pages, so its low twelve bits read back as ones.
\<close>

definition page_granular :: "DWORD \<Rightarrow> DWORD" where
  "page_granular l = (if 0x100000 \<le> l then l OR 0xfff else l)"

text \<open>
  The three array cells of slot \<open>k\<close>, and the cells that \<open>wine_ldt_set_entry\<close>
  stores for an entry in a slot whose flags were \<open>fl\<close>.
\<close>

definition slot :: "ldt_copy \<Rightarrow> nat \<Rightarrow> LPVOID \<times> DWORD \<times> UCHAR" where
  "slot t k = (ldt_base t k, ldt_limit t k, ldt_flags t k)"

definition written :: "LDT_ENTRY \<Rightarrow> UCHAR \<Rightarrow> LPVOID \<times> DWORD \<times> UCHAR" where
  "written e fl =
     (wine_ldt_get_base e, wine_ldt_get_limit e,
      wine_ldt_get_flags e OR (fl AND WINE_LDT_FLAGS_ALLOCATED))"

text \<open>
  The window count \<open>(size + 0xffff) / 0x10000\<close> that \<open>SELECTOR_AllocBlock\<close> and
  \<open>SELECTOR_SetEntries\<close> store in a \<open>WORD\<close>.
\<close>

definition block_count :: "DWORD \<Rightarrow> nat" where
  "block_count sz = unat (ucast ((sz + 0xffff) div 0x10000) :: WORD)"

text \<open>The selector of slot \<open>s\<close>, as \<open>SELECTOR_AllocArray\<close> builds it.\<close>

definition slot_sel :: "nat \<Rightarrow> WORD" where
  "slot_sel s = push_bit AHSHIFT (of_nat s) OR 7"

text \<open>
  The two window counts of \<open>SELECTOR_ReallocBlock\<close>: \<open>oldcount\<close> is read from the
  first slot's limit, \<open>newcount\<close> is \<open>(size + 0xffff) >> 16\<close> in a \<open>WORD\<close>, with size
  0 taken as 1.
\<close>

definition old_count :: "ldt_copy \<Rightarrow> WORD \<Rightarrow> nat" where
  "old_count t sel = unat (get_sel_count t sel)"

definition new_count_w :: "DWORD \<Rightarrow> WORD" where
  "new_count_w sz = ucast (drop_bit 16 ((if sz = 0 then 1 else sz) + 0xffff))"

definition new_count :: "DWORD \<Rightarrow> nat" where
  "new_count sz = unat (new_count_w sz)"

text \<open>
  The limit and the type that the validation functions read from the descriptor of a
  selector (\<open>wine_ldt_get_entry\<close>, then \<open>wine_ldt_get_limit\<close> or the \<open>Type\<close> field).
\<close>

definition desc_limit :: "ldt_copy \<Rightarrow> WORD \<Rightarrow> DWORD" where
  "desc_limit t sel = wine_ldt_get_limit (wine_ldt_get_entry t sel)"

definition desc_type :: "ldt_copy \<Rightarrow> WORD \<Rightarrow> UCHAR" where
  "desc_type t sel = Type (wine_ldt_get_entry t sel)"

text \<open>
  What holds of an alias \<open>newsel\<close> of \<open>sel\<close> whose type field was set to \<open>ty\<close>:
  its slot differs from the source's and was free, it is allocated now, it has the source's
  base, the source's limit as a descriptor encodes it, the type \<open>ty\<close> and the source's
  32-bit flag; the source's slot is unchanged, also after the alias is freed.
\<close>

definition alias_of :: "ldt_copy \<Rightarrow> WORD \<Rightarrow> ldt_copy \<Rightarrow> WORD \<Rightarrow> UCHAR \<Rightarrow> bool" where
  "alias_of t sel t' newsel ty \<longleftrightarrow>
     sel_index newsel \<noteq> sel_index sel \<and>
     \<not> allocated t (sel_index newsel) \<and> allocated t' (sel_index newsel) \<and>
     ldt_base t' (sel_index newsel) = ldt_base t (sel_index sel) \<and>
     ldt_limit t' (sel_index newsel) = page_granular (ldt_limit t (sel_index sel)) \<and>
     ldt_flags t' (sel_index newsel) AND 0x1f = ty \<and>
     ldt_flags t' (sel_index newsel) AND 0x40 = ldt_flags t (sel_index sel) AND 0x40 \<and>
     slot t' (sel_index sel) = slot t (sel_index sel) \<and>
     slot (fst (FreeSelector16 t' newsel)) (sel_index sel) = slot t (sel_index sel)"

text \<open>
  A table with every slot free and zeroed, a table with every slot allocated, a table
  whose only allocated slot, 17, is an execute-only code segment (type 0x19) at 0x100000
  with limit 0xFFFF, and a table with three allocated slots of limit 0xFFF: 17 a writable
  data segment (type 0x13), 18 a read-only data segment (type 0x11), 19 a code segment
  (type 0x1b).
\<close>

definition seg_ldt :: ldt_copy where
  "seg_ldt = \<lparr>ldt_base = (\<lambda>_. 0)(17 := 0x100000, 18 := 0x200000, 19 := 0x300000),
               ldt_limit = (\<lambda>_. 0)(17 := 0xFFF, 18 := 0xFFF, 19 := 0xFFF),
               ldt_flags = (\<lambda>_. 0)(17 := 0x93, 18 := 0x91, 19 := 0x9b)\<rparr>"

definition code_ldt :: ldt_copy where
  "code_ldt = \<lparr>ldt_base = (\<lambda>_. 0)(17 := 0x100000), ldt_limit = (\<lambda>_. 0)(17 := 0xFFFF),
                ldt_flags = (\<lambda>_. 0)(17 := 0x99)\<rparr>"


definition empty_ldt :: ldt_copy where
  "empty_ldt = \<lparr>ldt_base = (\<lambda>_. 0), ldt_limit = (\<lambda>_. 0), ldt_flags = (\<lambda>_. 0)\<rparr>"

definition full_ldt :: ldt_copy where
  "full_ldt = \<lparr>ldt_base = (\<lambda>_. 0), ldt_limit = (\<lambda>_. 0),
                ldt_flags = (\<lambda>_. WINE_LDT_FLAGS_DATA OR WINE_LDT_FLAGS_ALLOCATED)\<rparr>"

section \<open>Selectors and slot numbers\<close>

lemma seven_mask: "(7 :: 16 word) = mask 3"
  by (simp add: mask_eq_exp_minus_1)

lemma mk_sel_eq: "(push_bit 3 (of_nat s) OR 7 :: 16 word) = of_nat (8 * s + 7)"
proof -
  have "push_bit 3 (of_nat s) + (mask 3 :: 16 word) = push_bit 3 (of_nat s) OR mask 3"
    by (rule disjunctive_add) (auto simp: bit_push_bit_iff bit_mask_iff)
  then have "(push_bit 3 (of_nat s) OR 7 :: 16 word) = push_bit 3 (of_nat s) + 7"
    by (simp only: seven_mask)
  then show ?thesis by (simp add: push_bit_eq_mult)
qed

lemma sel_index_of_nat: "m < 65536 \<Longrightarrow> sel_index (of_nat m) = m div 8"
  by (simp add: sel_index_def AHSHIFT_def drop_bit_eq_div unat_div unat_of_nat)

lemma sel_index_make:
  assumes "s + i < 8192"
  shows "sel_index ((push_bit AHSHIFT (of_nat s) OR 7) + push_bit AHSHIFT (of_nat i)) = s + i"
proof -
  have e: "(push_bit 3 (of_nat s) OR 7 :: 16 word) + push_bit 3 (of_nat i) = of_nat (8 * (s + i) + 7)"
    by (simp only: mk_sel_eq) (simp add: push_bit_eq_mult algebra_simps)
  have "sel_index (of_nat (8 * (s + i) + 7)) = (8 * (s + i) + 7) div 8"
    by (rule sel_index_of_nat) (use assms in simp)
  also have "\<dots> = s + i" by simp
  finally show ?thesis by (simp only: AHSHIFT_def e)
qed

lemma sel_index_lt: "sel_index sel < 8192"
proof -
  have "unat sel < 65536" using unsigned_less [of sel] by simp
  then show ?thesis
    by (simp add: sel_index_def AHSHIFT_def drop_bit_eq_div unat_div)
qed

lemma mk_sel_nonzero: "(push_bit AHSHIFT (of_nat s) OR 7 :: 16 word) \<noteq> 0"
proof
  assume "(push_bit AHSHIFT (of_nat s) OR 7 :: 16 word) = 0"
  then have "bit (push_bit AHSHIFT (of_nat s) OR 7 :: 16 word) 0 = bit (0 :: 16 word) 0" by simp
  then show False by (simp add: bit_or_iff)
qed

section \<open>The slot allocator\<close>

declare AllocArray_scan.simps [simp del] AllocArray_mark.simps [simp del]
  FreeBlock_loop.simps [simp del] SetEntries_loop.simps [simp del]
  Realloc_check.simps [simp del] Realloc_mark.simps [simp del]

lemma scan_inv:
  "AllocArray_scan t count i sz = (i', sz') \<Longrightarrow> i \<le> LDT_SIZE \<Longrightarrow> sz < unat count \<Longrightarrow> sz \<le> i \<Longrightarrow>
   (\<forall>k. i - sz \<le> k \<and> k < i \<longrightarrow> \<not> allocated t k) \<Longrightarrow>
   i' \<le> LDT_SIZE \<and>
   (i' < LDT_SIZE \<longrightarrow> sz' = unat count \<and> sz' \<le> i' + 1 \<and> i - sz \<le> i' + 1 - sz' \<and>
      (\<forall>k. i' + 1 - sz' \<le> k \<and> k \<le> i' \<longrightarrow> \<not> allocated t k))"
proof (induction t count i sz rule: AllocArray_scan.induct)
  case (1 t count i sz)
  note res = "1.prems"(1) and ile = "1.prems"(2) and szc = "1.prems"(3) and szi = "1.prems"(4)
    and fr = "1.prems"(5)
  show ?case
  proof (cases "i < LDT_SIZE")
    case False
    then have "i' = i" "sz' = sz" using res
      by (simp_all add: AllocArray_scan.simps [of t count i sz])
    with False ile show ?thesis by simp
  next
    case inb: True
    show ?thesis
    proof (cases "allocated t i")
      case True
      then have a: "ldt_flags t i AND WINE_LDT_FLAGS_ALLOCATED \<noteq> 0"
        by (simp add: allocated_def)
      have r: "AllocArray_scan t count (i + 1) 0 = (i', sz')"
        using res inb a by (simp add: AllocArray_scan.simps [of t count i sz])
      have p1: "i + 1 \<le> LDT_SIZE" using inb by simp
      have p2: "0 < unat count" using szc by simp
      have p3: "\<forall>k. i + 1 - 0 \<le> k \<and> k < i + 1 \<longrightarrow> \<not> allocated t k" by auto
      have "i' \<le> LDT_SIZE \<and>
        (i' < LDT_SIZE \<longrightarrow> sz' = unat count \<and> sz' \<le> i' + 1 \<and> i + 1 - 0 \<le> i' + 1 - sz' \<and>
        (\<forall>k. i' + 1 - sz' \<le> k \<and> k \<le> i' \<longrightarrow> \<not> allocated t k))"
        by (rule "1.IH"(1) [OF inb a r p1 p2 _ p3]) simp
      then show ?thesis by auto
    next
      case free: False
      then have a: "\<not> ldt_flags t i AND WINE_LDT_FLAGS_ALLOCATED \<noteq> 0"
        by (simp add: allocated_def)
      show ?thesis
      proof (cases "unat count \<le> sz + 1")
        case True
        then have e: "i' = i" "sz' = sz + 1"
          using res inb a by (simp_all add: AllocArray_scan.simps [of t count i sz])
        have "sz + 1 = unat count" using True szc by simp
        moreover have "\<forall>k. i + 1 - (sz + 1) \<le> k \<and> k \<le> i \<longrightarrow> \<not> allocated t k"
          using fr free by (auto simp: le_less)
        moreover have "i - sz \<le> i + 1 - (sz + 1)" by simp
        ultimately show ?thesis using e ile szi by (simp del: diff_Suc_Suc)
      next
        case False
        then have r: "AllocArray_scan t count (i + 1) (sz + 1) = (i', sz')"
          using res inb a by (simp add: AllocArray_scan.simps [of t count i sz])
        have p1: "i + 1 \<le> LDT_SIZE" using inb by simp
        have p2: "sz + 1 < unat count" using False by simp
        have p3: "sz + 1 \<le> i + 1" using szi by simp
        have p4: "\<forall>k. i + 1 - (sz + 1) \<le> k \<and> k < i + 1 \<longrightarrow> \<not> allocated t k"
          using fr free by (auto simp: less_Suc_eq)
        have "i' \<le> LDT_SIZE \<and>
          (i' < LDT_SIZE \<longrightarrow> sz' = unat count \<and> sz' \<le> i' + 1 \<and> i + 1 - (sz + 1) \<le> i' + 1 - sz' \<and>
          (\<forall>k. i' + 1 - sz' \<le> k \<and> k \<le> i' \<longrightarrow> \<not> allocated t k))"
          by (rule "1.IH"(2) [OF inb a False r p1 p2 p3 p4])
        then show ?thesis by auto
      qed
    qed
  qed
qed

lemma mark_flags:
  "ldt_flags (AllocArray_mark t s i n) k =
     (if s + i \<le> k \<and> k < s + n then ldt_flags t k OR WINE_LDT_FLAGS_ALLOCATED else ldt_flags t k)"
proof (induction t s i n rule: AllocArray_mark.induct)
  case (1 t s i n)
  show ?case
  proof (cases "i < n")
    case True
    with "1.IH" show ?thesis
      by (simp add: AllocArray_mark.simps [of t s i n])
  next
    case False
    then show ?thesis by (auto simp: AllocArray_mark.simps [of t s i n])
  qed
qed

lemma mark_base: "ldt_base (AllocArray_mark t s i n) = ldt_base t"
proof (induction t s i n rule: AllocArray_mark.induct)
  case (1 t s i n)
  then show ?case by (cases "i < n") (simp_all add: AllocArray_mark.simps [of t s i n])
qed

lemma mark_limit: "ldt_limit (AllocArray_mark t s i n) = ldt_limit t"
proof (induction t s i n rule: AllocArray_mark.induct)
  case (1 t s i n)
  then show ?case by (cases "i < n") (simp_all add: AllocArray_mark.simps [of t s i n])
qed

lemma alloc_bit_or: "(x OR WINE_LDT_FLAGS_ALLOCATED) AND WINE_LDT_FLAGS_ALLOCATED \<noteq> 0"
  by (simp add: WINE_LDT_FLAGS_ALLOCATED_def bit_eq_iff bit_and_iff bit_or_iff) (rule exI [of _ 7], simp)

lemma alloc_bit_clear: "(x AND NOT WINE_LDT_FLAGS_ALLOCATED) AND WINE_LDT_FLAGS_ALLOCATED = 0"
  by (simp add: and.assoc)

lemma Free_allocated:
  "allocated (fst (FreeSelector16 t s)) k \<longleftrightarrow> allocated t k \<and> k \<noteq> sel_index s"
  by (auto simp: FreeSelector16_def IS_SELECTOR_FREE_def allocated_def Let_def
      wine_ldt_set_entry_def alloc_bit_clear)

lemma all_from_split:
  assumes "i < n"
  shows "(\<forall>j. i \<le> j \<and> j < n \<longrightarrow> P j) \<longleftrightarrow> P i \<and> (\<forall>j. Suc i \<le> j \<and> j < n \<longrightarrow> P j)"
proof
  assume a: "\<forall>j. i \<le> j \<and> j < n \<longrightarrow> P j"
  show "P i \<and> (\<forall>j. Suc i \<le> j \<and> j < n \<longrightarrow> P j)"
    using a assms by auto
next
  assume b: "P i \<and> (\<forall>j. Suc i \<le> j \<and> j < n \<longrightarrow> P j)"
  show "\<forall>j. i \<le> j \<and> j < n \<longrightarrow> P j"
  proof (intro allI impI)
    fix j assume "i \<le> j \<and> j < n"
    then show "P j" using b by (cases "j = i") auto
  qed
qed

lemma FreeBlock_loop_allocated:
  "allocated (FreeBlock_loop t sel i n) k \<longleftrightarrow>
     allocated t k \<and> (\<forall>j. i \<le> j \<and> j < n \<longrightarrow> k \<noteq> sel_index (sel + push_bit AHSHIFT (of_nat j)))"
proof (induction t sel i n rule: FreeBlock_loop.induct)
  case (1 t sel i n)
  show ?case
  proof (cases "i < n")
    case True
    have "allocated (FreeBlock_loop t sel i n) k \<longleftrightarrow>
       allocated (FreeBlock_loop (fst (FreeSelector16 t (sel + push_bit AHSHIFT (of_nat i)))) sel (i + 1) n) k"
      using True by (simp add: FreeBlock_loop.simps [of t sel i n])
    also have "\<dots> \<longleftrightarrow> allocated (fst (FreeSelector16 t (sel + push_bit AHSHIFT (of_nat i)))) k \<and>
       (\<forall>j. Suc i \<le> j \<and> j < n \<longrightarrow> k \<noteq> sel_index (sel + push_bit AHSHIFT (of_nat j)))"
      using "1.IH" [OF True] by simp
    also have "\<dots> \<longleftrightarrow> allocated t k \<and> (k \<noteq> sel_index (sel + push_bit AHSHIFT (of_nat i)) \<and>
       (\<forall>j. Suc i \<le> j \<and> j < n \<longrightarrow> k \<noteq> sel_index (sel + push_bit AHSHIFT (of_nat j))))"
      by (simp only: Free_allocated conj_assoc)
    also have "\<dots> \<longleftrightarrow> allocated t k \<and>
       (\<forall>j. i \<le> j \<and> j < n \<longrightarrow> k \<noteq> sel_index (sel + push_bit AHSHIFT (of_nat j)))"
      by (simp only: all_from_split [OF True, where P = "\<lambda>j. k \<noteq> sel_index (sel + push_bit AHSHIFT (of_nat j))"])
    finally show ?thesis .
  next
    case False
    then show ?thesis by (simp add: FreeBlock_loop.simps [of t sel i n])
  qed
qed

lemma FIRST_pos: "0 < FIRST_LDT_ENTRY_TO_ALLOC"
  by (simp add: FIRST_LDT_ENTRY_TO_ALLOC_def)

lemma FIRST_lt: "FIRST_LDT_ENTRY_TO_ALLOC < LDT_SIZE"
  by (simp add: FIRST_LDT_ENTRY_TO_ALLOC_def LDT_SIZE_def)

lemma AllocArray_cases:
  assumes "SELECTOR_AllocArray t count = (t1, sel)"
  shows "(sel = 0 \<and> t1 = t) \<or>
         (\<exists>s. sel = push_bit AHSHIFT (of_nat s) OR 7 \<and> count \<noteq> 0 \<and>
              FIRST_LDT_ENTRY_TO_ALLOC \<le> s \<and> s + unat count \<le> LDT_SIZE \<and>
              (\<forall>k. s \<le> k \<and> k < s + unat count \<longrightarrow> \<not> allocated t k) \<and>
              t1 = AllocArray_mark t s 0 (unat count))"
proof (cases "count = 0")
  case True
  with assms show ?thesis by (simp add: SELECTOR_AllocArray_def)
next
  case nz: False
  obtain i' sz' where sc: "AllocArray_scan t count FIRST_LDT_ENTRY_TO_ALLOC 0 = (i', sz')"
    by (cases "AllocArray_scan t count FIRST_LDT_ENTRY_TO_ALLOC 0") auto
  have cpos: "0 < unat count" using nz by (simp add: unat_gt_0)
  have vac: "\<forall>k. FIRST_LDT_ENTRY_TO_ALLOC - 0 \<le> k \<and> k < FIRST_LDT_ENTRY_TO_ALLOC \<longrightarrow> \<not> allocated t k"
    by auto
  have inv: "i' \<le> LDT_SIZE \<and>
   (i' < LDT_SIZE \<longrightarrow> sz' = unat count \<and> sz' \<le> i' + 1 \<and>
      FIRST_LDT_ENTRY_TO_ALLOC - 0 \<le> i' + 1 - sz' \<and>
      (\<forall>k. i' + 1 - sz' \<le> k \<and> k \<le> i' \<longrightarrow> \<not> allocated t k))"
    by (rule scan_inv [OF sc _ cpos _ vac]) (use FIRST_lt in simp_all)
  show ?thesis
  proof (cases "i' = LDT_SIZE")
    case True
    with assms nz sc show ?thesis by (simp add: SELECTOR_AllocArray_def)
  next
    case False
    with inv have lt: "i' < LDT_SIZE" by simp
    from inv have "i' < LDT_SIZE \<longrightarrow> sz' = unat count \<and> sz' \<le> i' + 1 \<and>
      FIRST_LDT_ENTRY_TO_ALLOC - 0 \<le> i' + 1 - sz' \<and>
      (\<forall>k. i' + 1 - sz' \<le> k \<and> k \<le> i' \<longrightarrow> \<not> allocated t k)" by (rule conjunct2)
    from this lt have c: "sz' = unat count \<and> sz' \<le> i' + 1 \<and>
      FIRST_LDT_ENTRY_TO_ALLOC - 0 \<le> i' + 1 - sz' \<and>
      (\<forall>k. i' + 1 - sz' \<le> k \<and> k \<le> i' \<longrightarrow> \<not> allocated t k)" by (rule mp)
    from c have f1: "sz' = unat count" by (elim conjE)
    from c have f2: "sz' \<le> i' + 1" by (elim conjE)
    from c have f3: "FIRST_LDT_ENTRY_TO_ALLOC \<le> i' + 1 - sz'" by (elim conjE) simp
    from c have f4: "\<forall>k. i' + 1 - sz' \<le> k \<and> k \<le> i' \<longrightarrow> \<not> allocated t k" by (elim conjE)
    note f = f1 f2 f3 f4
    have s_eq: "i' - sz' + 1 = i' + 1 - sz'" using f(3) FIRST_pos by simp
    have al: "SELECTOR_AllocArray t count =
        (AllocArray_mark t (i' - sz' + 1) 0 (unat count), push_bit AHSHIFT (of_nat (i' - sz' + 1)) OR 7)"
      using nz False by (simp only: SELECTOR_AllocArray_def sc if_False Let_def prod.case)
    have pr: "(t1, sel) =
        (AllocArray_mark t (i' - sz' + 1) 0 (unat count), push_bit AHSHIFT (of_nat (i' - sz' + 1)) OR 7)"
      by (rule trans [OF sym [OF assms] al])
    have r: "t1 = AllocArray_mark t (i' + 1 - sz') 0 (unat count)"
        "sel = push_bit AHSHIFT (of_nat (i' + 1 - sz')) OR 7"
      using pr unfolding s_eq by blast+
    have "i' + 1 - sz' + unat count \<le> LDT_SIZE" using f(1,2) lt by simp
    moreover have "\<forall>k. i' + 1 - sz' \<le> k \<and> k < i' + 1 - sz' + unat count \<longrightarrow> \<not> allocated t k"
    proof (intro allI impI)
      fix k assume "i' + 1 - sz' \<le> k \<and> k < i' + 1 - sz' + unat count"
      then have "i' + 1 - sz' \<le> k \<and> k \<le> i'" using f1 f2 by arith
      with f4 show "\<not> allocated t k" by blast
    qed
    ultimately show ?thesis using r nz f(3) by blast
  qed
qed

text \<open>
  Claim C7. For every nonzero \<open>count\<close> and every table in which
  \<open>SELECTOR_AllocArray\<close> succeeds, freeing the \<open>count\<close> selectors of the returned run
  (the loop of \<open>SELECTOR_FreeBlock\<close>, one \<open>FreeSelector16\<close> per selector) gives every
  slot the allocation bit it had before the two calls.
\<close>

theorem alloc_free_roundtrip:
  assumes "count \<noteq> 0" and "SELECTOR_AllocArray t count = (t1, sel)" and "sel \<noteq> 0"
  shows "\<forall>k. allocated (FreeBlock_loop t1 sel 0 (unat count)) k = allocated t k"
proof
  fix k
  from AllocArray_cases [OF assms(2)] assms(3)
  obtain s where s: "sel = push_bit AHSHIFT (of_nat s) OR 7"
      "s + unat count \<le> LDT_SIZE"
      "\<forall>k. s \<le> k \<and> k < s + unat count \<longrightarrow> \<not> allocated t k"
      "t1 = AllocArray_mark t s 0 (unat count)"
    by auto
  let ?tf = "FreeBlock_loop t1 sel 0 (unat count)"
  have idx: "sel_index (sel + push_bit AHSHIFT (of_nat j)) = s + j" if "j < unat count" for j
    unfolding s(1) by (rule sel_index_make) (use that s(2) in \<open>simp add: LDT_SIZE_def\<close>)
  have in_run: "(\<forall>j. 0 \<le> j \<and> j < unat count \<longrightarrow> k \<noteq> sel_index (sel + push_bit AHSHIFT (of_nat j)))
       \<longleftrightarrow> \<not> (s \<le> k \<and> k < s + unat count)"
  proof
    assume a: "\<forall>j. 0 \<le> j \<and> j < unat count \<longrightarrow> k \<noteq> sel_index (sel + push_bit AHSHIFT (of_nat j))"
    show "\<not> (s \<le> k \<and> k < s + unat count)"
    proof
      assume b: "s \<le> k \<and> k < s + unat count"
      then have lt: "k - s < unat count" by arith
      have e1: "sel_index (sel + push_bit AHSHIFT (of_nat (k - s))) = s + (k - s)"
        by (rule idx) (rule lt)
      have e2: "s + (k - s) = k" using b by arith
      have "k \<noteq> sel_index (sel + push_bit AHSHIFT (of_nat (k - s)))" using a lt by blast
      with e1 e2 show False by metis
    qed
  next
    assume "\<not> (s \<le> k \<and> k < s + unat count)"
    then show "\<forall>j. 0 \<le> j \<and> j < unat count \<longrightarrow> k \<noteq> sel_index (sel + push_bit AHSHIFT (of_nat j))"
      using idx by auto
  qed
  show "allocated ?tf k = allocated t k"
  proof (cases "s \<le> k \<and> k < s + unat count")
    case True
    then show ?thesis
      using in_run s(3) by (simp add: FreeBlock_loop_allocated)
  next
    case False
    then have "allocated ?tf k = allocated t1 k"
      using in_run by (simp add: FreeBlock_loop_allocated)
    also have "\<dots> = allocated t k"
      using False by (auto simp: allocated_def s(4) mark_flags)
    finally show ?thesis .
  qed
qed

theorem alloc_free_roundtrip_witness:
  "(2 :: WORD) \<noteq> 0 \<and> snd (SELECTOR_AllocArray empty_ldt 2) \<noteq> 0 \<and>
   (\<forall>k. allocated (FreeBlock_loop (fst (SELECTOR_AllocArray empty_ldt 2))
                   (snd (SELECTOR_AllocArray empty_ldt 2)) 0 (unat (2 :: WORD))) k
        = allocated empty_ldt k)"
proof -
  have nz: "(2 :: WORD) \<noteq> 0" by simp
  have ok: "snd (SELECTOR_AllocArray empty_ldt 2) \<noteq> 0" by code_simp
  show ?thesis
    using nz ok alloc_free_roundtrip [OF nz prod.collapse [symmetric] ok] by blast
qed

section \<open>Limits, windows and blocks\<close>

lemma fff_mask: "(0xfff :: 32 word) = mask 12"
  by (simp add: mask_eq_exp_minus_1)

lemma push_drop_or: "push_bit 12 (drop_bit 12 l) OR (0xfff :: 32 word) = l OR 0xfff"
  unfolding fff_mask
  by (rule bit_eqI) (auto simp: bit_or_iff bit_push_bit_iff bit_drop_bit_eq bit_mask_iff)

lemma get_set_limit: "wine_ldt_get_limit (wine_ldt_set_limit e l) = page_granular l"
  by (simp add: wine_ldt_get_limit_def wine_ldt_set_limit_def page_granular_def push_drop_or)

lemma page_granular_ge: "l \<le> page_granular l"
  by (simp add: page_granular_def le_word_or2)

lemma page_granular_idem: "page_granular (page_granular l) = page_granular l"
proof (cases "0x100000 \<le> l")
  case True
  then have "0x100000 \<le> l OR 0xfff" using le_word_or2 [of l "0xfff"] by simp
  with True show ?thesis by (simp add: page_granular_def or.assoc)
next
  case False
  then show ?thesis by (simp add: page_granular_def)
qed

lemma drop16_page_granular: "drop_bit 16 (page_granular l) = drop_bit 16 l"
  unfolding page_granular_def fff_mask
  by (rule bit_eqI) (auto simp: bit_or_iff bit_drop_bit_eq bit_mask_iff)

lemma mod_aux: "((a - (b * 65536) mod 4294967296) mod 4294967296) mod 4096 = a mod (4096::int)"
proof -
  have d: "(4096::int) dvd 4294967296" by simp
  have "((a - (b * 65536) mod 4294967296) mod 4294967296) mod 4096
      = (a - (b * 65536) mod 4294967296) mod 4096"
    by (rule mod_mod_cancel [OF d])
  also have "\<dots> = (a mod 4096 - ((b * 65536) mod 4294967296) mod 4096) mod 4096"
    by (rule mod_diff_eq [symmetric])
  also have "((b * 65536) mod 4294967296) mod 4096 = (b * 65536) mod 4096"
    by (rule mod_mod_cancel [OF d])
  also have "(b * 65536) mod 4096 = (0::int)"
    by simp
  finally show ?thesis by simp
qed

lemma uint_take12: "uint (take_bit 12 (w :: 32 word)) = uint w mod 4096"
  by (simp only: unsigned_take_bit_eq) (simp add: take_bit_eq_mod)

lemma take12_sub: "take_bit 12 (x - of_nat k * 0x10000 :: 32 word) = take_bit 12 x"
proof -
  have "uint (x - of_nat k * 0x10000) = (uint x - (uint (of_nat k :: 32 word) * 65536) mod 4294967296) mod 4294967296"
    by (simp add: uint_word_ariths)
  then have "uint (take_bit 12 (x - of_nat k * 0x10000 :: 32 word)) = uint (take_bit 12 x)"
    by (simp only: uint_take12 mod_aux)
  then show ?thesis by (rule word_uint_eqI) 
qed

lemma or_fff_iff: "(x :: 32 word) OR 0xfff = x \<longleftrightarrow> take_bit 12 x = mask 12"
proof
  assume a: "x OR 0xfff = x"
  have "x AND 0xfff = (x OR 0xfff) AND 0xfff" by (simp only: a)
  also have "\<dots> = 0xfff" by (rule word_ao_absorbs(5))
  finally show "take_bit 12 x = mask 12" by (simp only: take_bit_eq_mask fff_mask)
next
  assume "take_bit 12 x = mask 12"
  then have b: "x AND 0xfff = 0xfff" by (simp only: take_bit_eq_mask fff_mask)
  have "x OR 0xfff = x OR x AND 0xfff" by (simp only: b)
  also have "\<dots> = x" by (rule word_ao_absorbs(6))
  finally show "x OR 0xfff = x" .
qed

lemma page_granular_sub:
  assumes fx: "page_granular L = L" and le: "of_nat k * 0x10000 \<le> L"
  shows "page_granular (L - of_nat k * 0x10000) = L - of_nat k * 0x10000"
proof (cases "0x100000 \<le> L")
  case True
  with fx have "L OR 0xfff = L" by (simp add: page_granular_def)
  then have "take_bit 12 (L - of_nat k * 0x10000) = mask 12"
    by (simp add: or_fff_iff take12_sub)
  then have "(L - of_nat k * 0x10000) OR 0xfff = L - of_nat k * 0x10000"
    by (simp only: or_fff_iff)
  then show ?thesis by (simp add: page_granular_def)
next
  case False
  have "L - of_nat k * 0x10000 \<le> L" using le by (rule word_sub_le)
  with False have "\<not> 0x100000 \<le> L - of_nat k * 0x10000" by simp
  then show ?thesis by (simp add: page_granular_def)
qed

lemma next_window_base: "wine_ldt_get_base (next_window e) = wine_ldt_get_base e + 0x10000"
  by (simp add: next_window_def wine_ldt_get_base_def wine_ldt_set_base_def wine_ldt_set_limit_def)

lemma next_window_limit:
  "wine_ldt_get_limit (next_window e) = page_granular (wine_ldt_get_limit e - 0x10000)"
  by (simp only: next_window_def get_set_limit)

lemma next_window_flags: "wine_ldt_get_flags (next_window e) = wine_ldt_get_flags e"
  by (simp add: next_window_def wine_ldt_get_flags_def wine_ldt_set_base_def wine_ldt_set_limit_def)

lemma window_entry_base:
  "wine_ldt_get_base (window_entry e k) = wine_ldt_get_base e + of_nat k * 0x10000"
  by (induction k) (simp_all add: next_window_base algebra_simps)

lemma window_entry_flags: "wine_ldt_get_flags (window_entry e k) = wine_ldt_get_flags e"
  by (induction k) (simp_all add: next_window_flags)

lemma window_entry_shift: "window_entry (next_window e) k = window_entry e (Suc k)"
  by (induction k) simp_all

lemma of_nat_mult_le:
  assumes "k * 65536 \<le> unat (L :: 32 word)"
  shows "of_nat k * 0x10000 \<le> L"
proof -
  have "unat (of_nat (k * 65536) :: 32 word) = k * 65536"
    using assms by (rule le_unat_uoi)
  with assms have "(of_nat (k * 65536) :: 32 word) \<le> L" by (simp add: word_le_nat_alt)
  then show ?thesis by simp
qed

lemma window_entry_limit:
  assumes fx: "page_granular (wine_ldt_get_limit e) = wine_ldt_get_limit e"
    and le: "k * 65536 \<le> unat (wine_ldt_get_limit e)"
  shows "wine_ldt_get_limit (window_entry e k) = wine_ldt_get_limit e - of_nat k * 0x10000"
  using le
proof (induction k)
  case 0
  show ?case by simp
next
  case (Suc k)
  then have ih: "wine_ldt_get_limit (window_entry e k) = wine_ldt_get_limit e - of_nat k * 0x10000"
    by simp
  have "wine_ldt_get_limit (window_entry e (Suc k))
      = page_granular (wine_ldt_get_limit e - of_nat k * 0x10000 - 0x10000)"
    by (simp add: next_window_limit ih)
  also have "wine_ldt_get_limit e - of_nat k * 0x10000 - 0x10000
      = wine_ldt_get_limit e - of_nat (Suc k) * 0x10000"
    by (simp add: algebra_simps)
  also have "page_granular \<dots> = \<dots>"
    by (rule page_granular_sub [OF fx of_nat_mult_le [OF Suc.prems]])
  finally show ?case .
qed

lemma set_entry_slot:
  "sel_index s \<noteq> 0 \<Longrightarrow>
   slot (wine_ldt_set_entry t s e) k = (if k = sel_index s then written e (ldt_flags t k) else slot t k)"
  by (simp add: wine_ldt_set_entry_def slot_def written_def Let_def)

lemma sel_index_slot_sel:
  assumes "s + i < 8192"
  shows "sel_index (slot_sel s + push_bit AHSHIFT (of_nat i)) = s + i"
  unfolding slot_sel_def using assms by (rule sel_index_make)

lemma loop_slot:
  assumes "0 < s" and "s + n \<le> 8192"
  shows "slot (SetEntries_loop t (slot_sel s) e i n) k =
     (if s + i \<le> k \<and> k < s + n then written (window_entry e (k - (s + i))) (ldt_flags t k)
      else slot t k)"
  using assms
proof (induction t "slot_sel s" e i n rule: SetEntries_loop.induct)
  case (1 t e i n)
  show ?case
  proof (cases "i < n")
    case False
    then show ?thesis by (auto simp: SetEntries_loop.simps [of t _ e i n])
  next
    case True
    let ?t' = "wine_ldt_set_entry t (slot_sel s + push_bit AHSHIFT (of_nat i)) e"
    have idx: "sel_index (slot_sel s + push_bit AHSHIFT (of_nat i)) = s + i"
      by (rule sel_index_slot_sel) (use True "1.prems" in simp)
    have st: "slot ?t' j = (if j = s + i then written e (ldt_flags t j) else slot t j)" for j
      using set_entry_slot [of "slot_sel s + push_bit AHSHIFT (of_nat i)" t e j] idx "1.prems"(1)
      by simp
    have fl: "ldt_flags ?t' k = ldt_flags t k" if "k \<noteq> s + i"
      using st [of k] that by (simp add: slot_def)
    have "slot (SetEntries_loop t (slot_sel s) e i n) k =
          slot (SetEntries_loop ?t' (slot_sel s) (next_window e) (i + 1) n) k"
      using True by (simp add: SetEntries_loop.simps [of t _ e i n])
    also have "\<dots> = (if s + (i + 1) \<le> k \<and> k < s + n
        then written (window_entry (next_window e) (k - (s + (i + 1)))) (ldt_flags ?t' k)
        else slot ?t' k)"
      by (rule "1.hyps" [OF True "1.prems"])
    also have "\<dots> = (if s + i \<le> k \<and> k < s + n
        then written (window_entry e (k - (s + i))) (ldt_flags t k) else slot t k)"
    proof (cases "k = s + i")
      case True
      with \<open>i < n\<close> show ?thesis by (simp add: st)
    next
      case ne: False
      show ?thesis
      proof (cases "s + (i + 1) \<le> k \<and> k < s + n")
        case True
        then have e1: "k - (s + i) = Suc (k - (s + (i + 1)))" by arith
        from True have t2: "s + i \<le> k \<and> k < s + n" by arith
        show ?thesis
          unfolding if_P [OF True] if_P [OF t2] e1 window_entry_shift fl [OF ne] ..
      next
        case False
        with ne have n2: "\<not> (s + i \<le> k \<and> k < s + n)" by arith
        show ?thesis
          unfolding if_not_P [OF False] if_not_P [OF n2] st [of k] using ne by simp
      qed
    qed
    finally show ?thesis .
  qed
qed

lemma block_count_nat:
  "block_count sz = (((unat sz + 65535) mod 4294967296) div 65536) mod 65536"
  by (simp add: block_count_def unsigned_ucast_eq take_bit_eq_mod unat_div unat_word_ariths)

lemma block_count_pos:
  assumes "0 < block_count sz"
  shows "sz \<noteq> 0 \<and> block_count sz = (unat sz - 1) div 65536 + 1 \<and> unat sz + 65535 < 4294967296"
proof -
  have lt: "unat sz < 4294967296" using unsigned_less [of sz] by simp
  have nz: "sz \<noteq> 0" using assms by (auto simp: block_count_nat)
  then have pos: "0 < unat sz" by (simp add: unat_gt_0)
  have nowrap: "unat sz + 65535 < 4294967296"
  proof (rule ccontr)
    assume "\<not> unat sz + 65535 < 4294967296"
    with lt have "(unat sz + 65535) mod 4294967296 = unat sz + 65535 - 4294967296"
      by (simp add: mod_if)
    with lt have "((unat sz + 65535) mod 4294967296) div 65536 = 0" by simp
    with assms show False by (simp add: block_count_nat)
  qed
  then have "block_count sz = ((unat sz + 65535) div 65536) mod 65536"
    by (simp add: block_count_nat)
  also have "(unat sz + 65535) div 65536 = (unat sz - 1) div 65536 + 1"
    using pos by (simp add: div_add_self2 [symmetric])
  also have "((unat sz - 1) div 65536 + 1) mod 65536 = (unat sz - 1) div 65536 + 1"
    using nowrap by simp
  finally show ?thesis using nz nowrap by simp
qed

lemma first_base: "wine_ldt_get_base (SetEntries_first b sz fl) = b"
  by (simp add: SetEntries_first_def Let_def wine_ldt_get_base_def wine_ldt_set_base_def
      wine_ldt_set_limit_def wine_ldt_set_flags_def)

lemma get_limit_set_flags: "wine_ldt_get_limit (wine_ldt_set_flags e fl) = wine_ldt_get_limit e"
  by (simp add: wine_ldt_get_limit_def wine_ldt_set_flags_def)

lemma first_limit:
  "wine_ldt_get_limit (SetEntries_first b sz fl) =
     page_granular (if b = 0 \<and> sz = 1 then 1 else sz - 1)"
  by (simp add: SetEntries_first_def Let_def get_limit_set_flags get_set_limit)

lemma get_flags_set_limit: "wine_ldt_get_flags (wine_ldt_set_limit e l) = wine_ldt_get_flags e"
  by (simp add: wine_ldt_get_flags_def wine_ldt_set_limit_def)

lemma first_flags:
  "wine_ldt_get_flags (SetEntries_first b sz fl) = wine_ldt_get_flags (wine_ldt_set_flags zero_entry fl)"
  by (simp add: SetEntries_first_def Let_def get_flags_set_limit)
     (simp add: wine_ldt_get_flags_def wine_ldt_set_flags_def wine_ldt_set_limit_def wine_ldt_set_base_def)

lemma first_limit_fix:
  "page_granular (wine_ldt_get_limit (SetEntries_first b sz fl)) = wine_ldt_get_limit (SetEntries_first b sz fl)"
  by (simp only: first_limit page_granular_idem)

lemma first_limit_ge:
  assumes "sz \<noteq> 0"
  shows "unat sz - 1 \<le> unat (wine_ldt_get_limit (SetEntries_first b sz fl))"
proof (cases "b = 0 \<and> sz = 1")
  case True
  then show ?thesis by simp
next
  case False
  have "sz - 1 \<le> page_granular (sz - 1)" by (rule page_granular_ge)
  then have "unat (sz - 1) \<le> unat (page_granular (sz - 1))" by (simp add: word_le_nat_alt)
  moreover have "unat (sz - 1) = unat sz - 1" using assms by (simp add: unat_minus_one)
  ultimately show ?thesis using False by (simp add: first_limit)
qed

lemma first_limit_drop16:
  "drop_bit 16 (wine_ldt_get_limit (SetEntries_first b sz fl)) = drop_bit 16 (sz - 1)"
  by (simp add: first_limit drop16_page_granular)

lemma window_limit_block:
  assumes "k < block_count sz"
  shows "wine_ldt_get_limit (window_entry (SetEntries_first b sz fl) k) =
         wine_ldt_get_limit (SetEntries_first b sz fl) - of_nat k * 0x10000"
    and "k * 65536 \<le> unat (wine_ldt_get_limit (SetEntries_first b sz fl))"
proof -
  from assms have pos: "0 < block_count sz" by simp
  note bc = block_count_pos [OF pos]
  from assms bc have "k \<le> (unat sz - 1) div 65536" by simp
  then have "k * 65536 \<le> unat sz - 1" by simp
  also have "\<dots> \<le> unat (wine_ldt_get_limit (SetEntries_first b sz fl))"
    by (rule first_limit_ge) (use bc in simp)
  finally show le: "k * 65536 \<le> unat (wine_ldt_get_limit (SetEntries_first b sz fl))" .
  show "wine_ldt_get_limit (window_entry (SetEntries_first b sz fl) k) =
         wine_ldt_get_limit (SetEntries_first b sz fl) - of_nat k * 0x10000"
    by (rule window_entry_limit [OF first_limit_fix le])
qed

lemma alloc_or_and: "(g OR ((x OR WINE_LDT_FLAGS_ALLOCATED) AND WINE_LDT_FLAGS_ALLOCATED)) AND WINE_LDT_FLAGS_ALLOCATED \<noteq> 0"
  by (simp add: WINE_LDT_FLAGS_ALLOCATED_def)

lemma mark_slot:
  "slot (AllocArray_mark t s i n) k =
     (ldt_base t k, ldt_limit t k,
      if s + i \<le> k \<and> k < s + n then ldt_flags t k OR WINE_LDT_FLAGS_ALLOCATED else ldt_flags t k)"
  by (simp add: slot_def mark_flags mark_base mark_limit)

lemma AllocBlock_char:
  assumes "SELECTOR_AllocBlock t b sz fl = (t', sel)" and "sel \<noteq> 0"
  shows "\<exists>s. sel = slot_sel s \<and> FIRST_LDT_ENTRY_TO_ALLOC \<le> s \<and> s + block_count sz \<le> LDT_SIZE \<and>
           0 < block_count sz \<and>
           (\<forall>k. s \<le> k \<and> k < s + block_count sz \<longrightarrow> \<not> allocated t k) \<and>
           (\<forall>k. slot t' k =
              (if s \<le> k \<and> k < s + block_count sz
               then written (window_entry (SetEntries_first b sz fl) (k - s))
                      (ldt_flags t k OR WINE_LDT_FLAGS_ALLOCATED)
               else slot t k))"
proof -
  let ?count = "ucast ((sz + 0xffff) div 0x10000) :: WORD"
  obtain t1 where al: "SELECTOR_AllocArray t ?count = (t1, sel)"
    and t': "t' = SELECTOR_SetEntries t1 sel b sz fl"
    using assms by (auto simp: SELECTOR_AllocBlock_def Let_def split: if_splits prod.splits)
  from AllocArray_cases [OF al] assms(2)
  obtain s where s: "sel = push_bit AHSHIFT (of_nat s) OR 7" "?count \<noteq> 0"
      "FIRST_LDT_ENTRY_TO_ALLOC \<le> s" "s + unat ?count \<le> LDT_SIZE"
      "\<forall>k. s \<le> k \<and> k < s + unat ?count \<longrightarrow> \<not> allocated t k"
      "t1 = AllocArray_mark t s 0 (unat ?count)"
    by auto
  have n: "unat ?count = block_count sz" by (simp add: block_count_def)
  have "0 < unat ?count" using s(2) by (simp add: unat_gt_0)
  then have pos: "0 < block_count sz" by (simp only: n)
  have spos: "0 < s" using s(3) FIRST_pos by simp
  have le: "s + block_count sz \<le> 8192" using s(4) n by (simp add: LDT_SIZE_def)
  have t'2: "t' = SetEntries_loop t1 (slot_sel s) (SetEntries_first b sz fl) 0 (block_count sz)"
    using t' s(1) n by (simp add: SELECTOR_SetEntries_def Let_def slot_sel_def)
  have sl: "slot t' k =
              (if s \<le> k \<and> k < s + block_count sz
               then written (window_entry (SetEntries_first b sz fl) (k - s))
                      (ldt_flags t k OR WINE_LDT_FLAGS_ALLOCATED)
               else slot t k)" for k
  proof -
    have ls: "slot t' k =
       (if s + 0 \<le> k \<and> k < s + block_count sz
        then written (window_entry (SetEntries_first b sz fl) (k - (s + 0))) (ldt_flags t1 k)
        else slot t1 k)"
      unfolding t'2 by (rule loop_slot [OF spos le])
    show ?thesis
    proof (cases "s \<le> k \<and> k < s + block_count sz")
      case True
      then have f: "ldt_flags t1 k = ldt_flags t k OR WINE_LDT_FLAGS_ALLOCATED"
        by (simp add: s(6) n mark_flags)
      from True have T0: "s + 0 \<le> k \<and> k < s + block_count sz" by simp
      show ?thesis unfolding ls if_P [OF T0] if_P [OF True] f by simp
    next
      case False
      have e: "slot t1 k = slot t k"
        using False by (auto simp: s(6) n mark_flags mark_base mark_limit slot_def)
      from False have F0: "\<not> (s + 0 \<le> k \<and> k < s + block_count sz)" by simp
      show ?thesis unfolding ls if_not_P [OF F0] if_not_P [OF False] by (rule e)
    qed
  qed
  show ?thesis
    using s(1,3,4,5) n pos sl unfolding slot_sel_def by auto
qed

lemma unat_mult_64k:
  assumes "k * 65536 \<le> unat (L :: 32 word)"
  shows "unat (of_nat k * 0x10000 :: 32 word) = k * 65536"
proof -
  have "unat (of_nat (k * 65536) :: 32 word) = k * 65536"
    using assms by (rule le_unat_uoi)
  then show ?thesis by simp
qed

lemma unat_sub_64k:
  assumes "k * 65536 \<le> unat (L :: 32 word)"
  shows "unat (L - of_nat k * 0x10000) = unat L - k * 65536"
proof -
  have "unat (L - of_nat k * 0x10000) = unat L - unat (of_nat k * 0x10000 :: 32 word)"
    by (rule unat_sub) (rule of_nat_mult_le [OF assms])
  then show ?thesis by (simp only: unat_mult_64k [OF assms])
qed

lemma first_limit_div:
  assumes "sz \<noteq> 0"
  shows "unat (wine_ldt_get_limit (SetEntries_first b sz fl)) div 65536 = (unat sz - 1) div 65536"
proof -
  have "unat (drop_bit 16 (wine_ldt_get_limit (SetEntries_first b sz fl))) = unat (drop_bit 16 (sz - 1))"
    by (simp only: first_limit_drop16)
  moreover have "unat (sz - 1) = unat sz - 1" using assms by (simp add: unat_minus_one)
  ultimately show ?thesis by (simp add: drop_bit_eq_div unat_div)
qed

lemma AllocBlock_window:
  assumes ab: "SELECTOR_AllocBlock t b sz fl = (t', sel)" and nz: "sel \<noteq> 0"
    and i: "i < block_count sz"
  shows "sel_index (sel + push_bit AHSHIFT (of_nat i)) = sel_index sel + i"
    and "FIRST_LDT_ENTRY_TO_ALLOC \<le> sel_index sel"
    and "sel_index sel + block_count sz \<le> LDT_SIZE"
    and "\<not> allocated t (sel_index sel + i)"
    and "slot t' (sel_index sel + i) =
           written (window_entry (SetEntries_first b sz fl) i)
             (ldt_flags t (sel_index sel + i) OR WINE_LDT_FLAGS_ALLOCATED)"
    and "\<forall>k. \<not> (sel_index sel \<le> k \<and> k < sel_index sel + block_count sz) \<longrightarrow> slot t' k = slot t k"
proof -
  from AllocBlock_char [OF ab nz]
  obtain s where s: "sel = slot_sel s" "FIRST_LDT_ENTRY_TO_ALLOC \<le> s"
      "s + block_count sz \<le> LDT_SIZE" 
      "\<forall>k. s \<le> k \<and> k < s + block_count sz \<longrightarrow> \<not> allocated t k"
      "\<forall>k. slot t' k =
              (if s \<le> k \<and> k < s + block_count sz
               then written (window_entry (SetEntries_first b sz fl) (k - s))
                      (ldt_flags t k OR WINE_LDT_FLAGS_ALLOCATED)
               else slot t k)"
    by blast
  have lt: "s + j < 8192" if "j < block_count sz" for j
    using that s(3) by (simp add: LDT_SIZE_def)
  have "sel_index (slot_sel s + push_bit AHSHIFT (of_nat 0)) = s + 0"
    by (rule sel_index_slot_sel) (use lt [of 0] i in simp)
  then have s0: "sel_index sel = s" by (simp add: s(1))
  show "sel_index (sel + push_bit AHSHIFT (of_nat i)) = sel_index sel + i"
    unfolding s0 unfolding s(1) by (rule sel_index_slot_sel) (rule lt [OF i])
  show "FIRST_LDT_ENTRY_TO_ALLOC \<le> sel_index sel" unfolding s0 by (rule s(2))
  show "sel_index sel + block_count sz \<le> LDT_SIZE" unfolding s0 by (rule s(3))
  have inr: "s \<le> s + i \<and> s + i < s + block_count sz" using i by simp
  show "\<not> allocated t (sel_index sel + i)" unfolding s0 using s(4) inr by blast
  have "slot t' (s + i) = written (window_entry (SetEntries_first b sz fl) (s + i - s))
                      (ldt_flags t (s + i) OR WINE_LDT_FLAGS_ALLOCATED)"
    using s(5) inr by (simp only: if_P)
  then show "slot t' (sel_index sel + i) =
           written (window_entry (SetEntries_first b sz fl) i)
             (ldt_flags t (sel_index sel + i) OR WINE_LDT_FLAGS_ALLOCATED)"
    unfolding s0 by simp
  show "\<forall>k. \<not> (sel_index sel \<le> k \<and> k < sel_index sel + block_count sz) \<longrightarrow> slot t' k = slot t k"
    unfolding s0 using s(5) by (simp only: if_not_P) simp
qed

lemma written_simps:
  "fst (written e fl) = wine_ldt_get_base e"
  "fst (snd (written e fl)) = wine_ldt_get_limit e"
  "snd (snd (written e fl)) = wine_ldt_get_flags e OR (fl AND WINE_LDT_FLAGS_ALLOCATED)"
  by (simp_all add: written_def)

lemma slot_simps:
  "ldt_base t k = fst (slot t k)"
  "ldt_limit t k = fst (snd (slot t k))"
  "ldt_flags t k = snd (snd (slot t k))"
  by (simp_all add: slot_def)

lemma AllocBlock_limit:
  assumes ab: "SELECTOR_AllocBlock t b sz fl = (t', sel)" and nz: "sel \<noteq> 0"
    and i: "i < block_count sz"
  shows "unat (ldt_limit t' (sel_index sel + i)) =
           unat (wine_ldt_get_limit (SetEntries_first b sz fl)) - i * 65536"
    and "ldt_limit t' (sel_index sel + i) =
           wine_ldt_get_limit (SetEntries_first b sz fl) - of_nat i * 0x10000"
    and "i * 65536 \<le> unat (wine_ldt_get_limit (SetEntries_first b sz fl))"
proof -
  note w = AllocBlock_window [OF ab nz i]
  note wl = window_limit_block [OF i, of b fl]
  show e: "ldt_limit t' (sel_index sel + i) =
           wine_ldt_get_limit (SetEntries_first b sz fl) - of_nat i * 0x10000"
    by (simp only: slot_simps(2) w(5) written_simps(2) wl(1))
  show "i * 65536 \<le> unat (wine_ldt_get_limit (SetEntries_first b sz fl))" by (rule wl(2))
  show "unat (ldt_limit t' (sel_index sel + i)) =
           unat (wine_ldt_get_limit (SetEntries_first b sz fl)) - i * 65536"
    unfolding e by (rule unat_sub_64k [OF wl(2)])
qed

lemma AllocBlock_allocated:
  assumes ab: "SELECTOR_AllocBlock t b sz fl = (t', sel)" and nz: "sel \<noteq> 0"
    and i: "i < block_count sz"
  shows "allocated t' (sel_index sel + i)"
proof -
  note w = AllocBlock_window [OF ab nz i]
  show ?thesis
    unfolding allocated_def by (simp only: slot_simps(3) w(5) written_simps(3) alloc_or_and not_False_eq_True)
qed

text \<open>
  Claim C1, as the code has it. The windows of a block that \<open>SELECTOR_AllocBlock\<close>
  created are contiguous slots, all allocated; window \<open>i\<close> has base
  \<open>base + i * 0x10000\<close>, and its limit is the first window's limit minus
  \<open>i * 0x10000\<close>: the limit of a window runs to the end of the block and is not
  saturated. Every window but the last has a limit of at least 0x10000, the last one a
  limit below 0x10000, and for a size of at most 0x100000 the first limit is
  \<open>size - 1\<close> (but 1 for size 1 at base 0).
\<close>

theorem block_window_limits:
  assumes ab: "SELECTOR_AllocBlock t b sz fl = (t', sel)" and nz: "sel \<noteq> 0"
    and i: "i < block_count sz"
  shows "sel_index (sel + push_bit AHSHIFT (of_nat i)) = sel_index sel + i \<and>
         allocated t' (sel_index sel + i) \<and>
         ldt_base t' (sel_index sel + i) = b + of_nat i * 0x10000 \<and>
         GetSelectorLimit16 t' (sel + push_bit AHSHIFT (of_nat i)) =
           GetSelectorLimit16 t' sel - of_nat i * 0x10000 \<and>
         (Suc i < block_count sz \<longrightarrow>
            0x10000 \<le> GetSelectorLimit16 t' (sel + push_bit AHSHIFT (of_nat i))) \<and>
         (Suc i = block_count sz \<longrightarrow>
            GetSelectorLimit16 t' (sel + push_bit AHSHIFT (of_nat i)) < 0x10000) \<and>
         (sz \<le> 0x100000 \<and> \<not> (b = 0 \<and> sz = 1) \<longrightarrow> GetSelectorLimit16 t' sel = sz - 1)"
proof -
  let ?L0 = "wine_ldt_get_limit (SetEntries_first b sz fl)"
  from i have pos: "0 < block_count sz" by simp
  note bc = block_count_pos [OF pos]
  note w = AllocBlock_window [OF ab nz i]
  note w0 = AllocBlock_window [OF ab nz pos]
  note l = AllocBlock_limit [OF ab nz i]
  note l0 = AllocBlock_limit [OF ab nz pos]
  have L0: "GetSelectorLimit16 t' sel = ?L0"
    using l0(2) by (simp add: GetSelectorLimit16_def)
  have Li: "GetSelectorLimit16 t' (sel + push_bit AHSHIFT (of_nat i)) = ?L0 - of_nat i * 0x10000"
    by (simp only: GetSelectorLimit16_def w(1) l(2))
  have uLi: "unat (GetSelectorLimit16 t' (sel + push_bit AHSHIFT (of_nat i))) = unat ?L0 - i * 65536"
    by (simp only: GetSelectorLimit16_def w(1) l(1))
  have dv: "unat ?L0 div 65536 = block_count sz - 1"
    using bc by (simp add: first_limit_div)
  have c1: "sel_index (sel + push_bit AHSHIFT (of_nat i)) = sel_index sel + i" by (rule w(1))
  have c2: "allocated t' (sel_index sel + i)" by (rule AllocBlock_allocated [OF ab nz i])
  have c3: "ldt_base t' (sel_index sel + i) = b + of_nat i * 0x10000"
    by (simp only: slot_simps(1) w(5) written_simps(1) window_entry_base first_base)
  have c4: "GetSelectorLimit16 t' (sel + push_bit AHSHIFT (of_nat i)) =
           GetSelectorLimit16 t' sel - of_nat i * 0x10000"
    by (simp only: Li L0)
  have c5: "0x10000 \<le> GetSelectorLimit16 t' (sel + push_bit AHSHIFT (of_nat i))"
    if "Suc i < block_count sz"
  proof -
    from that dv have "Suc i \<le> unat ?L0 div 65536" by simp
    then have "Suc i * 65536 \<le> unat ?L0" by simp
    then have "65536 \<le> unat ?L0 - i * 65536" by simp
    then show ?thesis by (simp add: word_le_nat_alt uLi)
  qed
  have c6: "GetSelectorLimit16 t' (sel + push_bit AHSHIFT (of_nat i)) < 0x10000"
    if "Suc i = block_count sz"
  proof -
    from that dv have "unat ?L0 div 65536 = i" by simp
    then have "unat ?L0 < Suc i * 65536"
      by (metis div_less_iff_less_mult lessI zero_less_numeral)
    then have "unat ?L0 - i * 65536 < 65536" by simp
    then show ?thesis by (simp add: word_less_nat_alt uLi)
  qed
  have c7: "GetSelectorLimit16 t' sel = sz - 1" if "sz \<le> 0x100000 \<and> \<not> (b = 0 \<and> sz = 1)"
  proof -
    have "unat (sz - 1) = unat sz - 1" using bc by (simp add: unat_minus_one)
    moreover have "unat sz \<le> 1048576" using that by (simp add: word_le_nat_alt)
    ultimately have "\<not> 0x100000 \<le> sz - 1" using bc by (simp add: word_le_nat_alt unat_gt_0)
    then show ?thesis using that by (simp add: L0 first_limit page_granular_def)
  qed
  from c1 c2 c3 c4 c5 c6 c7 show ?thesis by blast
qed

lemma AllocBlock_snd:
  "sz \<noteq> 0 \<Longrightarrow>
   snd (SELECTOR_AllocBlock t b sz fl) = snd (SELECTOR_AllocArray t (of_nat (block_count sz)))"
  by (simp add: SELECTOR_AllocBlock_def Let_def block_count_def split: prod.splits)

lemma empty_alloc_1: "snd (SELECTOR_AllocArray empty_ldt 1) = 0x8f"
  by code_simp

lemma empty_alloc_2: "snd (SELECTOR_AllocArray empty_ldt 2) = 0x8f"
  by code_simp

lemma empty_alloc_3: "snd (SELECTOR_AllocArray empty_ldt 3) = 0x8f"
  by code_simp

lemma block_count_examples:
  "block_count 1 = 1" "block_count 0xFFFF = 1" "block_count 0x10000 = 1"
  "block_count 0x10001 = 2" "block_count 0x20000 = 2" "block_count 0x20001 = 3"
  by (simp_all add: block_count_def)

lemma AllocBlock_GetSelectorLimit:
  assumes ab: "SELECTOR_AllocBlock t b sz fl = (t', sel)" and nz: "sel \<noteq> 0"
    and i: "i < block_count sz"
  shows "GetSelectorLimit16 t' (sel + push_bit AHSHIFT (of_nat i)) =
           page_granular (if b = 0 \<and> sz = 1 then 1 else sz - 1) - of_nat i * 0x10000"
  by (simp only: GetSelectorLimit16_def AllocBlock_window(1) [OF ab nz i]
      AllocBlock_limit(2) [OF ab nz i] first_limit)

lemma example_3_windows:
  defines "X \<equiv> SELECTOR_AllocBlock empty_ldt 0x100000 0x20001 WINE_LDT_FLAGS_DATA"
  shows "snd X = 0x8f"
    and "GetSelectorLimit16 (fst X) (snd X + push_bit AHSHIFT (of_nat 0)) = 0x20000"
    and "GetSelectorLimit16 (fst X) (snd X + push_bit AHSHIFT (of_nat 1)) = 0x10000"
    and "GetSelectorLimit16 (fst X) (snd X + push_bit AHSHIFT (of_nat 2)) = 0"
proof -
  show s: "snd X = 0x8f"
    unfolding X_def by (simp add: AllocBlock_snd block_count_examples empty_alloc_3)
  then have nz: "snd X \<noteq> 0" by simp
  have ab: "SELECTOR_AllocBlock empty_ldt 0x100000 0x20001 WINE_LDT_FLAGS_DATA = (fst X, snd X)"
    by (simp add: X_def)
  have i: "0 < block_count 0x20001" "1 < block_count 0x20001" "2 < block_count 0x20001"
    by (simp_all add: block_count_examples)
  show "GetSelectorLimit16 (fst X) (snd X + push_bit AHSHIFT (of_nat 0)) = 0x20000"
    by (simp only: AllocBlock_GetSelectorLimit [OF ab nz i(1)]) (simp add: page_granular_def)
  show "GetSelectorLimit16 (fst X) (snd X + push_bit AHSHIFT (of_nat 1)) = 0x10000"
    by (simp only: AllocBlock_GetSelectorLimit [OF ab nz i(2)]) (simp add: page_granular_def)
  show "GetSelectorLimit16 (fst X) (snd X + push_bit AHSHIFT (of_nat 2)) = 0"
    by (simp only: AllocBlock_GetSelectorLimit [OF ab nz i(3)]) (simp add: page_granular_def)
qed

text \<open>
  The three-window block of size 0x20001: the limit lookups on windows 0, 1 and 2 return
  0x20000, 0x10000 and 0, not 0xFFFF, 0xFFFF and 0.
\<close>

theorem block_limit_not_saturated:
  "GetSelectorLimit16 (fst (SELECTOR_AllocBlock empty_ldt 0x100000 0x20001 WINE_LDT_FLAGS_DATA))
     (snd (SELECTOR_AllocBlock empty_ldt 0x100000 0x20001 WINE_LDT_FLAGS_DATA) + push_bit AHSHIFT (of_nat 0)) = 0x20000 \<and>
   GetSelectorLimit16 (fst (SELECTOR_AllocBlock empty_ldt 0x100000 0x20001 WINE_LDT_FLAGS_DATA))
     (snd (SELECTOR_AllocBlock empty_ldt 0x100000 0x20001 WINE_LDT_FLAGS_DATA) + push_bit AHSHIFT (of_nat 1)) = 0x10000 \<and>
   GetSelectorLimit16 (fst (SELECTOR_AllocBlock empty_ldt 0x100000 0x20001 WINE_LDT_FLAGS_DATA))
     (snd (SELECTOR_AllocBlock empty_ldt 0x100000 0x20001 WINE_LDT_FLAGS_DATA) + push_bit AHSHIFT (of_nat 2)) = 0 \<and>
   GetSelectorLimit16 (fst (SELECTOR_AllocBlock empty_ldt 0x100000 0x20001 WINE_LDT_FLAGS_DATA))
     (snd (SELECTOR_AllocBlock empty_ldt 0x100000 0x20001 WINE_LDT_FLAGS_DATA) + push_bit AHSHIFT (of_nat 0)) \<noteq> 0xFFFF"
  using example_3_windows(2,3,4) by simp

theorem block_window_limits_witness:
  "snd (SELECTOR_AllocBlock empty_ldt 0x100000 0x20001 WINE_LDT_FLAGS_DATA) \<noteq> 0 \<and>
   (2 :: nat) < block_count 0x20001 \<and>
   GetSelectorLimit16 (fst (SELECTOR_AllocBlock empty_ldt 0x100000 0x20001 WINE_LDT_FLAGS_DATA))
     (snd (SELECTOR_AllocBlock empty_ldt 0x100000 0x20001 WINE_LDT_FLAGS_DATA)) = 0x20001 - 1 \<and>
   0x10000 \<le> GetSelectorLimit16 (fst (SELECTOR_AllocBlock empty_ldt 0x100000 0x20001 WINE_LDT_FLAGS_DATA))
     (snd (SELECTOR_AllocBlock empty_ldt 0x100000 0x20001 WINE_LDT_FLAGS_DATA) + push_bit AHSHIFT (of_nat 1)) \<and>
   GetSelectorLimit16 (fst (SELECTOR_AllocBlock empty_ldt 0x100000 0x20001 WINE_LDT_FLAGS_DATA))
     (snd (SELECTOR_AllocBlock empty_ldt 0x100000 0x20001 WINE_LDT_FLAGS_DATA) + push_bit AHSHIFT (of_nat 2)) < 0x10000"
proof -
  let ?X = "SELECTOR_AllocBlock empty_ldt 0x100000 0x20001 WINE_LDT_FLAGS_DATA"
  have h1: "snd ?X \<noteq> 0" by (simp add: example_3_windows(1))
  have bc: "block_count 0x20001 = 3" by (simp add: block_count_def)
  have h2: "(1 :: nat) < block_count 0x20001" and h3: "(2 :: nat) < block_count 0x20001"
    by (simp_all add: bc)
  have sz: "(0x20001 :: DWORD) \<le> 0x100000 \<and> \<not> ((0x100000 :: LPVOID) = 0 \<and> (0x20001 :: DWORD) = 1)"
    by simp
  show ?thesis
    using h1 h3 sz block_window_limits [OF prod.collapse [symmetric] h1 h2]
      block_window_limits [OF prod.collapse [symmetric] h1 h3]
    by (simp add: bc)
qed

lemma get_sel_count_unat:
  "unat (get_sel_count t sel) = (unat (ldt_limit t (sel_index sel)) div 65536 + 1) mod 65536"
proof -
  have "unat (ldt_limit t (sel_index sel)) < 4294967296"
    using unsigned_less [of "ldt_limit t (sel_index sel)"] by simp
  then have "unat (ldt_limit t (sel_index sel)) div 65536 < 65536" by simp
  then show ?thesis
    by (simp add: get_sel_count_def unat_word_ariths unsigned_ucast_eq take_bit_eq_mod
        drop_bit_eq_div unat_div mod_simps)
qed

lemma AllocBlock_sel_count:
  assumes ab: "SELECTOR_AllocBlock t b sz fl = (t', sel)" and nz: "sel \<noteq> 0"
    and i: "i < block_count sz"
  shows "unat (get_sel_count t' (sel + push_bit AHSHIFT (of_nat i))) = block_count sz - i"
proof -
  let ?L0 = "wine_ldt_get_limit (SetEntries_first b sz fl)"
  from i have pos: "0 < block_count sz" by simp
  note bc = block_count_pos [OF pos]
  note w = AllocBlock_window [OF ab nz i]
  note l = AllocBlock_limit [OF ab nz i]
  have dv: "unat ?L0 div 65536 = block_count sz - 1"
    using bc by (simp add: first_limit_div)
  have "(unat ?L0 - i * 65536) div 65536 = unat ?L0 div 65536 - i"
    using l(3) by (simp add: div_mult_self4 [symmetric] le_div_geq)
  also have "\<dots> = block_count sz - 1 - i" by (simp only: dv)
  finally have d: "unat (ldt_limit t' (sel_index sel + i)) div 65536 = block_count sz - 1 - i"
    by (simp only: l(1))
  have "block_count sz \<le> 8192" using w(3) by (simp add: LDT_SIZE_def)
  then have "(block_count sz - 1 - i + 1) mod 65536 = block_count sz - i" using i by simp
  then show ?thesis by (simp only: get_sel_count_unat w(1) d)
qed

text \<open>
  Claim C8, as the code has it. In a block of \<open>block_count size\<close> windows that
  \<open>SELECTOR_AllocBlock\<close> created, \<open>get_sel_count\<close> on the selector of window \<open>i\<close>
  (that is \<open>(limit >> 16) + 1\<close> of that slot) is the number of windows from window \<open>i\<close>
  to the end of the block; it is the block's total count on the first selector.
\<close>

theorem sel_count_remaining:
  assumes "SELECTOR_AllocBlock t b sz fl = (t', sel)" and "sel \<noteq> 0"
    and "i < block_count sz"
  shows "unat (get_sel_count t' (sel + push_bit AHSHIFT (of_nat i))) = block_count sz - i \<and>
         unat (get_sel_count t' sel) = block_count sz"
proof -
  from assms(3) have pos: "0 < block_count sz" by simp
  from AllocBlock_sel_count [OF assms(1,2) pos]
  have "unat (get_sel_count t' sel) = block_count sz" by simp
  with AllocBlock_sel_count [OF assms] show ?thesis by simp
qed

lemma example_2_windows:
  defines "X \<equiv> SELECTOR_AllocBlock empty_ldt 0x100000 0x10001 WINE_LDT_FLAGS_DATA"
  shows "snd X = 0x8f"
    and "SELECTOR_AllocBlock empty_ldt 0x100000 0x10001 WINE_LDT_FLAGS_DATA = (fst X, snd X)"
proof -
  show s: "snd X = 0x8f"
    unfolding X_def by (simp add: AllocBlock_snd block_count_examples empty_alloc_2)
  show "SELECTOR_AllocBlock empty_ldt 0x100000 0x10001 WINE_LDT_FLAGS_DATA = (fst X, snd X)"
    by (simp add: X_def)
qed

theorem sel_count_remaining_witness:
  "snd (SELECTOR_AllocBlock empty_ldt 0x100000 0x10001 WINE_LDT_FLAGS_DATA) \<noteq> 0 \<and>
   (1 :: nat) < block_count 0x10001 \<and>
   unat (get_sel_count (fst (SELECTOR_AllocBlock empty_ldt 0x100000 0x10001 WINE_LDT_FLAGS_DATA))
     (snd (SELECTOR_AllocBlock empty_ldt 0x100000 0x10001 WINE_LDT_FLAGS_DATA) + push_bit AHSHIFT (of_nat 1)))
    = block_count 0x10001 - 1 \<and>
   unat (get_sel_count (fst (SELECTOR_AllocBlock empty_ldt 0x100000 0x10001 WINE_LDT_FLAGS_DATA))
     (snd (SELECTOR_AllocBlock empty_ldt 0x100000 0x10001 WINE_LDT_FLAGS_DATA))) = block_count 0x10001"
proof -
  have h1: "snd (SELECTOR_AllocBlock empty_ldt 0x100000 0x10001 WINE_LDT_FLAGS_DATA) \<noteq> 0"
    by (simp add: example_2_windows(1))
  have h2: "(1 :: nat) < block_count 0x10001" by (simp add: block_count_examples)
  show ?thesis
    using h1 h2 sel_count_remaining [OF prod.collapse [symmetric] h1 h2] by simp
qed

text \<open>
  The second slot of a two-window block (size 0x10001) gives the count 1, not the block's
  total of 2.
\<close>

theorem sel_count_not_total:
  "block_count 0x10001 = 2 \<and>
   unat (get_sel_count (fst (SELECTOR_AllocBlock empty_ldt 0x100000 0x10001 WINE_LDT_FLAGS_DATA))
     (snd (SELECTOR_AllocBlock empty_ldt 0x100000 0x10001 WINE_LDT_FLAGS_DATA) + push_bit AHSHIFT (of_nat 1)))
    = 1 \<and>
   unat (get_sel_count (fst (SELECTOR_AllocBlock empty_ldt 0x100000 0x10001 WINE_LDT_FLAGS_DATA))
     (snd (SELECTOR_AllocBlock empty_ldt 0x100000 0x10001 WINE_LDT_FLAGS_DATA) + push_bit AHSHIFT (of_nat 1)))
    \<noteq> block_count 0x10001"
proof -
  have h1: "snd (SELECTOR_AllocBlock empty_ldt 0x100000 0x10001 WINE_LDT_FLAGS_DATA) \<noteq> 0"
    by (simp add: example_2_windows(1))
  have h2: "(1 :: nat) < block_count 0x10001" by (simp add: block_count_examples)
  show ?thesis
    using AllocBlock_sel_count [OF example_2_windows(2) h1 h2] by (simp add: block_count_examples)
qed

lemma AllocBlock_allocated_iff:
  assumes ab: "SELECTOR_AllocBlock t b sz fl = (t', sel)" and nz: "sel \<noteq> 0"
  shows "allocated t' k \<longleftrightarrow>
         allocated t k \<or> (sel_index sel \<le> k \<and> k < sel_index sel + block_count sz)"
proof (cases "sel_index sel \<le> k \<and> k < sel_index sel + block_count sz")
  case True
  then have i: "k - sel_index sel < block_count sz" by arith
  from True have e: "sel_index sel + (k - sel_index sel) = k" by arith
  have "allocated t' (sel_index sel + (k - sel_index sel))"
    by (rule AllocBlock_allocated [OF ab nz i])
  then have "allocated t' k" unfolding e .
  with True show ?thesis by simp
next
  case False
  from AllocBlock_char [OF ab nz] have pos: "0 < block_count sz" by blast
  from AllocBlock_window(6) [OF ab nz pos] False have "slot t' k = slot t k" by blast
  then have "ldt_flags t' k = ldt_flags t k" by (simp add: slot_def)
  then have "allocated t' k = allocated t k" by (simp add: allocated_def)
  with False show ?thesis by blast
qed

lemma AllocBlock_last_limit:
  assumes ab: "SELECTOR_AllocBlock t b sz fl = (t', sel)" and nz: "sel \<noteq> 0"
    and sz: "sz \<le> 0x100000"
  shows "GetSelectorLimit16 t' (sel + push_bit AHSHIFT (of_nat (block_count sz - 1))) =
           (if b = 0 \<and> sz = 1 then 1 else (sz - 1) mod 0x10000)"
proof -
  from AllocBlock_char [OF ab nz] have pos: "0 < block_count sz" by blast
  note bc = block_count_pos [OF pos]
  from pos have i: "block_count sz - 1 < block_count sz" by simp
  note w = AllocBlock_window [OF ab nz i]
  note l = AllocBlock_limit [OF ab nz i]
  have u1: "unat (sz - 1) = unat sz - 1" using bc by (simp add: unat_minus_one)
  have "unat sz \<le> 1048576" using sz by (simp add: word_le_nat_alt)
  with u1 have small: "\<not> 0x100000 \<le> sz - 1" using bc by (simp add: word_le_nat_alt unat_gt_0)
  have G: "GetSelectorLimit16 t' (sel + push_bit AHSHIFT (of_nat (block_count sz - 1)))
      = ldt_limit t' (sel_index sel + (block_count sz - 1))"
    by (simp only: GetSelectorLimit16_def w(1))
  show ?thesis
  proof (cases "b = 0 \<and> sz = 1")
    case True
    then have z: "block_count sz - 1 = 0" by (simp add: block_count_examples)
    have L0: "wine_ldt_get_limit (SetEntries_first b sz fl) = 1"
      using True by (simp add: first_limit page_granular_def word_le_nat_alt)
    have "GetSelectorLimit16 t' (sel + push_bit AHSHIFT (of_nat (block_count sz - 1)))
        = wine_ldt_get_limit (SetEntries_first b sz fl) - of_nat (block_count sz - 1) * 0x10000"
      by (simp only: G l(2))
    also have "\<dots> = 1" by (simp only: L0 z) simp
    finally show ?thesis unfolding if_P [OF True] .
  next
    case False
    then have L0: "wine_ldt_get_limit (SetEntries_first b sz fl) = sz - 1"
      using small by (simp add: first_limit page_granular_def)
    have "unat (ldt_limit t' (sel_index sel + (block_count sz - 1)))
        = unat (sz - 1) - (unat (sz - 1) div 65536) * 65536"
      using l(1) bc by (simp add: L0 u1)
    also have "\<dots> = unat (sz - 1) mod 65536"
      by (simp add: minus_div_mult_eq_mod)
    also have "\<dots> = unat ((sz - 1) mod 0x10000)"
      by (simp add: unat_mod)
    finally have "ldt_limit t' (sel_index sel + (block_count sz - 1)) = (sz - 1) mod 0x10000"
      by (rule word_unat_eq_iff [THEN iffD2])
    then have "GetSelectorLimit16 t' (sel + push_bit AHSHIFT (of_nat (block_count sz - 1)))
        = (sz - 1) mod 0x10000"
      by (simp only: G)
    then show ?thesis unfolding if_not_P [OF False] .
  qed
qed

text \<open>
  Claim C2, as the code has it. \<open>SELECTOR_AllocBlock\<close> with size 0 returns the null
  selector and leaves the table alone; the sizes 1, 0xFFFF, 0x10000, 0x10001 and 0x20000
  need 1, 1, 1, 2 and 2 windows; and when the allocation succeeds for a size of at most
  0x100000, the slots that become allocated are exactly a run of that many free slots, and
  the last window's limit is \<open>(size - 1) mod 0x10000\<close>, which is 0 and not 0xFFFF when
  that remainder is 0; size 1 at base 0 gets the limit 1.
\<close>

theorem alloc_block_sizes:
  "SELECTOR_AllocBlock t b 0 fl = (t, 0) \<and>
   block_count 1 = 1 \<and> block_count 0xFFFF = 1 \<and> block_count 0x10000 = 1 \<and>
   block_count 0x10001 = 2 \<and> block_count 0x20000 = 2 \<and>
   (SELECTOR_AllocBlock t b sz fl = (t', sel) \<and> sel \<noteq> 0 \<and> sz \<le> 0x100000 \<longrightarrow>
      (\<forall>k. allocated t' k \<longleftrightarrow>
           allocated t k \<or> (sel_index sel \<le> k \<and> k < sel_index sel + block_count sz)) \<and>
      (\<forall>k. sel_index sel \<le> k \<and> k < sel_index sel + block_count sz \<longrightarrow> \<not> allocated t k) \<and>
      GetSelectorLimit16 t' (sel + push_bit AHSHIFT (of_nat (block_count sz - 1))) =
        (if b = 0 \<and> sz = 1 then 1 else (sz - 1) mod 0x10000))"
proof -
  have a: "SELECTOR_AllocBlock t b 0 fl = (t, 0)" by (simp add: SELECTOR_AllocBlock_def)
  have c: "(\<forall>k. allocated t' k \<longleftrightarrow>
           allocated t k \<or> (sel_index sel \<le> k \<and> k < sel_index sel + block_count sz)) \<and>
      (\<forall>k. sel_index sel \<le> k \<and> k < sel_index sel + block_count sz \<longrightarrow> \<not> allocated t k) \<and>
      GetSelectorLimit16 t' (sel + push_bit AHSHIFT (of_nat (block_count sz - 1))) =
        (if b = 0 \<and> sz = 1 then 1 else (sz - 1) mod 0x10000)"
    if h: "SELECTOR_AllocBlock t b sz fl = (t', sel) \<and> sel \<noteq> 0 \<and> sz \<le> 0x100000"
  proof -
    from h have ab: "SELECTOR_AllocBlock t b sz fl = (t', sel)" and nz: "sel \<noteq> 0"
      and sz: "sz \<le> 0x100000" by simp_all
    have free: "\<not> allocated t k" if "sel_index sel \<le> k \<and> k < sel_index sel + block_count sz" for k
    proof -
      from that have i: "k - sel_index sel < block_count sz" by arith
      from that have e: "sel_index sel + (k - sel_index sel) = k" by arith
      have "\<not> allocated t (sel_index sel + (k - sel_index sel))"
        by (rule AllocBlock_window(4) [OF ab nz i])
      then show ?thesis unfolding e .
    qed
    show ?thesis
      using AllocBlock_allocated_iff [OF ab nz] AllocBlock_last_limit [OF ab nz sz] free
      by blast
  qed
  from a c block_count_examples(1-5) show ?thesis by blast
qed

theorem alloc_block_sizes_witness:
  "snd (SELECTOR_AllocBlock empty_ldt 0x100000 0x10001 WINE_LDT_FLAGS_DATA) \<noteq> 0 \<and>
   (0x10001 :: DWORD) \<le> 0x100000 \<and>
   GetSelectorLimit16 (fst (SELECTOR_AllocBlock empty_ldt 0x100000 0x10001 WINE_LDT_FLAGS_DATA))
     (snd (SELECTOR_AllocBlock empty_ldt 0x100000 0x10001 WINE_LDT_FLAGS_DATA) +
      push_bit AHSHIFT (of_nat (block_count 0x10001 - 1))) = (0x10001 - 1) mod 0x10000"
proof -
  let ?X = "SELECTOR_AllocBlock empty_ldt 0x100000 0x10001 WINE_LDT_FLAGS_DATA"
  have h1: "snd ?X \<noteq> 0" by (simp add: example_2_windows(1))
  have h2: "(0x10001 :: DWORD) \<le> 0x100000" by simp
  have ne: "\<not> ((0x100000 :: LPVOID) = 0 \<and> (0x10001 :: DWORD) = 1)" by simp
  have pre: "SELECTOR_AllocBlock empty_ldt 0x100000 0x10001 WINE_LDT_FLAGS_DATA = (fst ?X, snd ?X) \<and>
      snd ?X \<noteq> 0 \<and> (0x10001 :: DWORD) \<le> 0x100000"
    using h1 h2 by simp
  from pre alloc_block_sizes [of empty_ldt "0x100000" WINE_LDT_FLAGS_DATA "0x10001" "fst ?X" "snd ?X"]
  have "GetSelectorLimit16 (fst ?X) (snd ?X + push_bit AHSHIFT (of_nat (block_count 0x10001 - 1))) =
        (if (0x100000 :: LPVOID) = 0 \<and> (0x10001 :: DWORD) = 1 then 1 else (0x10001 - 1) mod 0x10000)"
    by blast
  then have "GetSelectorLimit16 (fst ?X) (snd ?X + push_bit AHSHIFT (of_nat (block_count 0x10001 - 1))) =
        (0x10001 - 1) mod 0x10000"
    unfolding if_not_P [OF ne] .
  with h1 h2 show ?thesis by blast
qed

text \<open>
  For size 0x10001 the remainder \<open>(size - 1) mod 0x10000\<close> is 0 and the last window's
  limit is 0, not 0xFFFF.
\<close>

theorem last_limit_zero_remainder:
  "((0x10001 :: DWORD) - 1) mod 0x10000 = 0 \<and>
   GetSelectorLimit16 (fst (SELECTOR_AllocBlock empty_ldt 0x100000 0x10001 WINE_LDT_FLAGS_DATA))
     (snd (SELECTOR_AllocBlock empty_ldt 0x100000 0x10001 WINE_LDT_FLAGS_DATA) +
      push_bit AHSHIFT (of_nat (block_count 0x10001 - 1))) \<noteq> 0xFFFF"
proof -
  let ?X = "SELECTOR_AllocBlock empty_ldt 0x100000 0x10001 WINE_LDT_FLAGS_DATA"
  have h1: "snd ?X \<noteq> 0" by (simp add: example_2_windows(1))
  have h2: "(0x10001 :: DWORD) \<le> 0x100000" by simp
  have ne: "\<not> ((0x100000 :: LPVOID) = 0 \<and> (0x10001 :: DWORD) = 1)" by simp
  have r: "((0x10001 :: DWORD) - 1) mod 0x10000 = 0" by simp
  have "GetSelectorLimit16 (fst ?X) (snd ?X + push_bit AHSHIFT (of_nat (block_count 0x10001 - 1))) = 0"
    using AllocBlock_last_limit [OF example_2_windows(2) h1 h2]
    unfolding if_not_P [OF ne] r .
  then have "GetSelectorLimit16 (fst ?X) (snd ?X + push_bit AHSHIFT (of_nat (block_count 0x10001 - 1)))
      \<noteq> 0xFFFF" by simp
  with r show ?thesis by blast
qed

section \<open>Exhaustion, and the pointer bridge\<close>

lemma scan_all_allocated:
  "(\<forall>k. i \<le> k \<and> k < LDT_SIZE \<longrightarrow> allocated t k) \<Longrightarrow> i \<le> LDT_SIZE \<Longrightarrow>
   fst (AllocArray_scan t count i sz) = LDT_SIZE"
proof (induction t count i sz rule: AllocArray_scan.induct)
  case (1 t count i sz)
  show ?case
  proof (cases "i < LDT_SIZE")
    case False
    then have "AllocArray_scan t count i sz = (i, sz)"
      by (simp add: AllocArray_scan.simps [of t count i sz])
    with False "1.prems"(2) show ?thesis by simp
  next
    case True
    with "1.prems"(1) have a: "ldt_flags t i AND WINE_LDT_FLAGS_ALLOCATED \<noteq> 0"
      by (simp add: allocated_def)
    have p1: "\<forall>k. i + 1 \<le> k \<and> k < LDT_SIZE \<longrightarrow> allocated t k" using "1.prems"(1) by simp
    have p2: "i + 1 \<le> LDT_SIZE" using True by simp
    have "fst (AllocArray_scan t count (i + 1) 0) = LDT_SIZE"
      by (rule "1.IH"(1) [OF True a p1 p2])
    then show ?thesis using True a by (simp add: AllocArray_scan.simps [of t count i sz])
  qed
qed

lemma scan_one_free:
  "(\<exists>k. i \<le> k \<and> k < LDT_SIZE \<and> \<not> allocated t k) \<Longrightarrow>
   fst (AllocArray_scan t 1 i sz) < LDT_SIZE"
proof (induction t "1 :: WORD" i sz rule: AllocArray_scan.induct)
  case (1 t i sz)
  from "1.prems" obtain k where k: "i \<le> k" "k < LDT_SIZE" "\<not> allocated t k" by blast
  then have inb: "i < LDT_SIZE" by simp
  show ?case
  proof (cases "allocated t i")
    case True
    then have a: "ldt_flags t i AND WINE_LDT_FLAGS_ALLOCATED \<noteq> 0" by (simp add: allocated_def)
    from True k have "k \<noteq> i" by blast
    with k(1) have "i + 1 \<le> k" by arith
    with k(2,3) have "\<exists>k. i + 1 \<le> k \<and> k < LDT_SIZE \<and> \<not> allocated t k" by blast
    then have "fst (AllocArray_scan t 1 (i + 1) 0) < LDT_SIZE"
      by (rule "1.hyps"(1) [OF inb a])
    then show ?thesis using inb a by (simp add: AllocArray_scan.simps [of t 1 i sz])
  next
    case False
    then have "ldt_flags t i AND WINE_LDT_FLAGS_ALLOCATED = 0" by (simp add: allocated_def)
    then show ?thesis using inb by (simp add: AllocArray_scan.simps [of t 1 i sz])
  qed
qed

lemma AllocArray_full:
  assumes "\<forall>k. FIRST_LDT_ENTRY_TO_ALLOC \<le> k \<and> k < LDT_SIZE \<longrightarrow> allocated t k"
  shows "SELECTOR_AllocArray t count = (t, 0)"
proof -
  have "fst (AllocArray_scan t count FIRST_LDT_ENTRY_TO_ALLOC 0) = LDT_SIZE"
    by (rule scan_all_allocated [OF assms]) (use FIRST_lt in simp)
  then show ?thesis
    by (cases "AllocArray_scan t count FIRST_LDT_ENTRY_TO_ALLOC 0")
       (simp add: SELECTOR_AllocArray_def)
qed

lemma or7_nonzero: "(x OR 7 :: 16 word) \<noteq> 0"
proof
  assume "x OR 7 = 0"
  then have "bit (x OR 7) 0 = bit (0 :: 16 word) 0" by simp
  then show False by (simp add: bit_or_iff)
qed

lemma AllocArray_one_free:
  assumes "\<exists>k. FIRST_LDT_ENTRY_TO_ALLOC \<le> k \<and> k < LDT_SIZE \<and> \<not> allocated t k"
  shows "snd (SELECTOR_AllocArray t 1) \<noteq> 0"
proof -
  have "fst (AllocArray_scan t 1 FIRST_LDT_ENTRY_TO_ALLOC 0) < LDT_SIZE"
    by (rule scan_one_free [OF assms])
  then show ?thesis
    by (cases "AllocArray_scan t 1 FIRST_LDT_ENTRY_TO_ALLOC 0")
       (simp add: SELECTOR_AllocArray_def Let_def or7_nonzero)
qed

lemma full_ldt_allocated: "allocated full_ldt k"
  by (simp add: allocated_def full_ldt_def WINE_LDT_FLAGS_ALLOCATED_def WINE_LDT_FLAGS_DATA_def)

lemma AllocArray_full_ldt: "SELECTOR_AllocArray full_ldt count = (full_ldt, 0)"
  by (rule AllocArray_full) (simp add: full_ldt_allocated)

lemma SELECTOROF_make: "SELECTOROF (PTR_SEG_OFF_TO_SEGPTR sel 0) = sel"
proof -
  have "ucast (drop_bit 16 (push_bit 16 (ucast sel :: 32 word))) = sel"
    by (rule bit_word_eqI) (auto simp: bit_ucast_iff bit_drop_bit_eq bit_push_bit_iff)
  then show ?thesis by (simp add: SELECTOROF_def HIWORD_def PTR_SEG_OFF_TO_SEGPTR_def)
qed

lemma OFFSETOF_make: "OFFSETOF (PTR_SEG_OFF_TO_SEGPTR sel 0) = 0"
proof -
  have "(ucast (push_bit 16 (ucast sel :: 32 word)) :: 16 word) = 0"
    by (rule bit_word_eqI) (auto simp: bit_ucast_iff bit_push_bit_iff)
  then show ?thesis by (simp add: OFFSETOF_def PTR_SEG_OFF_TO_SEGPTR_def)
qed

lemma data_flags_entry:
  "wine_ldt_get_flags (wine_ldt_set_flags zero_entry WINE_LDT_FLAGS_DATA) = WINE_LDT_FLAGS_DATA"
  by (simp add: wine_ldt_get_flags_def wine_ldt_set_flags_def WINE_LDT_FLAGS_DATA_def
      WINE_LDT_FLAGS_32BIT_def)

lemma or_alloc_and: "(x OR WINE_LDT_FLAGS_ALLOCATED) AND WINE_LDT_FLAGS_ALLOCATED = WINE_LDT_FLAGS_ALLOCATED"
  by simp

lemma HIWORD_nonzero: "HIWORD p \<noteq> 0 \<Longrightarrow> p \<noteq> 0"
  by (auto simp: HIWORD_def)

lemma MapLS_slot:
  assumes hi: "HIWORD p \<noteq> 0" and m: "MapLS t p = (t', sp)" and nz: "SELECTOROF sp \<noteq> 0"
  shows "SELECTOR_AllocBlock t p 0x10000 WINE_LDT_FLAGS_DATA = (t', SELECTOROF sp)"
    and "OFFSETOF sp = 0"
    and "\<not> allocated t (sel_index (SELECTOROF sp))"
    and "slot t' (sel_index (SELECTOROF sp)) = (p, 0xFFFF, WINE_LDT_FLAGS_DATA OR WINE_LDT_FLAGS_ALLOCATED)"
    and "\<forall>k. k \<noteq> sel_index (SELECTOROF sp) \<longrightarrow> slot t' k = slot t k"
    and "FIRST_LDT_ENTRY_TO_ALLOC \<le> sel_index (SELECTOROF sp)"
proof -
  obtain sel where ab: "SELECTOR_AllocBlock t p 0x10000 WINE_LDT_FLAGS_DATA = (t', sel)"
    and sp: "sp = PTR_SEG_OFF_TO_SEGPTR sel 0"
    using hi m by (auto simp: MapLS_def split: prod.splits)
  have sel: "SELECTOROF sp = sel" by (simp add: sp SELECTOROF_make)
  with nz have nz': "sel \<noteq> 0" by simp
  show ab': "SELECTOR_AllocBlock t p 0x10000 WINE_LDT_FLAGS_DATA = (t', SELECTOROF sp)"
    by (simp only: sel ab)
  show "OFFSETOF sp = 0" by (simp add: sp OFFSETOF_make)
  have i: "0 < block_count 0x10000" by (simp add: block_count_examples)
  note w = AllocBlock_window [OF ab nz' i]
  show "\<not> allocated t (sel_index (SELECTOROF sp))" using w(4) by (simp add: sel)
  show "FIRST_LDT_ENTRY_TO_ALLOC \<le> sel_index (SELECTOROF sp)" using w(2) by (simp add: sel)
  have pnz: "p \<noteq> 0" using hi by (rule HIWORD_nonzero)
  have L0: "wine_ldt_get_limit (SetEntries_first p 0x10000 WINE_LDT_FLAGS_DATA) = 0xFFFF"
    by (simp add: first_limit page_granular_def)
  have "slot t' (sel_index sel) = written (SetEntries_first p 0x10000 WINE_LDT_FLAGS_DATA)
           (ldt_flags t (sel_index sel) OR WINE_LDT_FLAGS_ALLOCATED)"
    using w(5) by simp
  then show "slot t' (sel_index (SELECTOROF sp)) = (p, 0xFFFF, WINE_LDT_FLAGS_DATA OR WINE_LDT_FLAGS_ALLOCATED)"
    by (simp add: sel written_def first_base L0 first_flags data_flags_entry)
  show "\<forall>k. k \<noteq> sel_index (SELECTOROF sp) \<longrightarrow> slot t' k = slot t k"
  proof (intro allI impI)
    fix k assume "k \<noteq> sel_index (SELECTOROF sp)"
    then have "\<not> (sel_index sel \<le> k \<and> k < sel_index sel + block_count 0x10000)"
      by (simp add: sel block_count_examples)
    with w(6) show "slot t' k = slot t k" by blast
  qed
qed

lemma MapLS_low: "HIWORD p = 0 \<Longrightarrow> MapLS t p = (t, p)"
  by (simp add: MapLS_def)

lemma MapLS_snd:
  "HIWORD p \<noteq> 0 \<Longrightarrow> SELECTOROF (snd (MapLS t p)) = snd (SELECTOR_AllocArray t 1)"
  using AllocBlock_snd [of "0x10000" t p WINE_LDT_FLAGS_DATA]
  by (cases "SELECTOR_AllocBlock t p 0x10000 WINE_LDT_FLAGS_DATA")
     (simp add: MapLS_def SELECTOROF_make block_count_examples)

lemma MapLS_full:
  assumes "HIWORD p \<noteq> 0" and "\<forall>k. FIRST_LDT_ENTRY_TO_ALLOC \<le> k \<and> k < LDT_SIZE \<longrightarrow> allocated t k"
  shows "MapLS t p = (t, 0)"
proof -
  have "SELECTOR_AllocBlock t p 0x10000 WINE_LDT_FLAGS_DATA = (t, 0)"
    by (simp add: SELECTOR_AllocBlock_def AllocArray_full [OF assms(2)])
  then show ?thesis using assms(1) by (simp add: MapLS_def PTR_SEG_OFF_TO_SEGPTR_def)
qed

text \<open>
  Claim C5, as the code has it. \<open>MapLS\<close> returns a pointer whose high word is zero as it
  is, with the table unchanged. For any other pointer, when it returns a non-null selector,
  the offset is 0, the selector's slot was free, and the slot now holds the pointer itself
  as base (not the pointer aligned down), the limit 0xFFFF and the Data flags with the
  allocation bit; every other slot is unchanged.
\<close>

theorem MapLS_window:
  "(HIWORD p = 0 \<longrightarrow> MapLS t p = (t, p)) \<and>
   (HIWORD p \<noteq> 0 \<and> MapLS t p = (t', sp) \<and> SELECTOROF sp \<noteq> 0 \<longrightarrow>
      OFFSETOF sp = 0 \<and> \<not> allocated t (sel_index (SELECTOROF sp)) \<and>
      slot t' (sel_index (SELECTOROF sp)) =
        (p, 0xFFFF, WINE_LDT_FLAGS_DATA OR WINE_LDT_FLAGS_ALLOCATED) \<and>
      (\<forall>k. k \<noteq> sel_index (SELECTOROF sp) \<longrightarrow> slot t' k = slot t k))"
  using MapLS_low [of p t] MapLS_slot [of p t t' sp] by blast

lemma MapLS_empty_example:
  "HIWORD (0x12345 :: LPVOID) \<noteq> 0"
  "SELECTOROF (snd (MapLS empty_ldt 0x12345)) = 0x8f"
  "sel_index 0x8f = 17"
  by (simp_all add: HIWORD_def MapLS_snd empty_alloc_1 sel_index_def AHSHIFT_def)

theorem MapLS_window_witness:
  "HIWORD (0x1234 :: LPVOID) = 0 \<and> MapLS empty_ldt 0x1234 = (empty_ldt, 0x1234) \<and>
   HIWORD (0x12345 :: LPVOID) \<noteq> 0 \<and> SELECTOROF (snd (MapLS empty_ldt 0x12345)) \<noteq> 0 \<and>
   OFFSETOF (snd (MapLS empty_ldt 0x12345)) = 0 \<and>
   slot (fst (MapLS empty_ldt 0x12345)) (sel_index (SELECTOROF (snd (MapLS empty_ldt 0x12345)))) =
     (0x12345, 0xFFFF, WINE_LDT_FLAGS_DATA OR WINE_LDT_FLAGS_ALLOCATED)"
proof -
  have l: "HIWORD (0x1234 :: LPVOID) = 0" by (simp add: HIWORD_def)
  have h: "HIWORD (0x12345 :: LPVOID) \<noteq> 0" by (rule MapLS_empty_example(1))
  have s: "SELECTOROF (snd (MapLS empty_ldt 0x12345)) \<noteq> 0" by (simp add: MapLS_empty_example(2))
  have pre: "HIWORD (0x12345 :: LPVOID) \<noteq> 0 \<and>
      MapLS empty_ldt 0x12345 = (fst (MapLS empty_ldt 0x12345), snd (MapLS empty_ldt 0x12345)) \<and>
      SELECTOROF (snd (MapLS empty_ldt 0x12345)) \<noteq> 0"
    using h s by simp
  from l MapLS_window [of "0x1234" empty_ldt]
  have a: "MapLS empty_ldt 0x1234 = (empty_ldt, 0x1234)" by blast
  from pre MapLS_window [of "0x12345" empty_ldt "fst (MapLS empty_ldt 0x12345)" "snd (MapLS empty_ldt 0x12345)"]
  have b: "OFFSETOF (snd (MapLS empty_ldt 0x12345)) = 0 \<and>
   slot (fst (MapLS empty_ldt 0x12345)) (sel_index (SELECTOROF (snd (MapLS empty_ldt 0x12345)))) =
     (0x12345, 0xFFFF, WINE_LDT_FLAGS_DATA OR WINE_LDT_FLAGS_ALLOCATED)" by blast
  from l a h s b show ?thesis by blast
qed

text \<open>
  The pointer 0x12345 is mapped to a window whose base is 0x12345 itself; the address
  aligned down to a 4 KB page would be 0x12000, and to a 64 KB window 0x10000.
\<close>

theorem MapLS_base_not_aligned:
  "ldt_base (fst (MapLS empty_ldt 0x12345))
     (sel_index (SELECTOROF (snd (MapLS empty_ldt 0x12345)))) = 0x12345 \<and>
   (0x12345 :: LPVOID) AND NOT 0xFFF = 0x12000 \<and>
   ldt_base (fst (MapLS empty_ldt 0x12345))
     (sel_index (SELECTOROF (snd (MapLS empty_ldt 0x12345)))) \<noteq> 0x12345 AND NOT 0xFFF"
proof -
  have s: "SELECTOROF (snd (MapLS empty_ldt 0x12345)) \<noteq> 0" by (simp add: MapLS_empty_example(2))
  from MapLS_slot(4) [OF MapLS_empty_example(1) prod.collapse [symmetric] s]
  have "ldt_base (fst (MapLS empty_ldt 0x12345))
     (sel_index (SELECTOROF (snd (MapLS empty_ldt 0x12345)))) = 0x12345"
    by (simp add: slot_def)
  moreover have "(0x12345 :: LPVOID) AND NOT 0xFFF = 0x12000" by simp
  ultimately show ?thesis by simp
qed

lemma UnMapLS_low: "HIWORD p = 0 \<Longrightarrow> UnMapLS t p = t"
  by (simp add: UnMapLS_def SELECTOROF_def)

lemma MapLS_MapSL:
  assumes hi: "HIWORD p \<noteq> 0" and nz: "SELECTOROF (snd (MapLS t p)) \<noteq> 0"
  shows "MapSL (fst (MapLS t p)) (snd (MapLS t p)) = p"
proof -
  note s = MapLS_slot [OF hi prod.collapse [symmetric] nz]
  from s(4) have "ldt_base (fst (MapLS t p)) (sel_index (SELECTOROF (snd (MapLS t p)))) = p"
    by (simp add: slot_def)
  then show ?thesis by (simp add: MapSL_def s(2))
qed

text \<open>
  Claim C6, as the code has it. A linear address whose high word is zero is returned by
  \<open>MapLS\<close> as it is and \<open>UnMapLS\<close> on the result leaves the table unchanged. For an
  address with a nonzero high word: when a slot from \<open>FIRST_LDT_ENTRY_TO_ALLOC\<close> on is
  free, \<open>MapLS\<close> returns a non-null selector and \<open>MapSL\<close> of the result is the original
  address; when none is free, it returns 0 and leaves the table unchanged.
\<close>

theorem MapLS_roundtrip:
  "(HIWORD p = 0 \<longrightarrow> MapLS t p = (t, p) \<and> UnMapLS t (snd (MapLS t p)) = t) \<and>
   (HIWORD p \<noteq> 0 \<and> (\<exists>k. FIRST_LDT_ENTRY_TO_ALLOC \<le> k \<and> k < LDT_SIZE \<and> \<not> allocated t k) \<longrightarrow>
      SELECTOROF (snd (MapLS t p)) \<noteq> 0 \<and> MapSL (fst (MapLS t p)) (snd (MapLS t p)) = p) \<and>
   (HIWORD p \<noteq> 0 \<and> (\<forall>k. FIRST_LDT_ENTRY_TO_ALLOC \<le> k \<and> k < LDT_SIZE \<longrightarrow> allocated t k) \<longrightarrow>
      MapLS t p = (t, 0))"
proof -
  have a: "MapLS t p = (t, p) \<and> UnMapLS t (snd (MapLS t p)) = t" if "HIWORD p = 0"
    using that by (simp add: MapLS_low UnMapLS_low)
  have b: "SELECTOROF (snd (MapLS t p)) \<noteq> 0 \<and> MapSL (fst (MapLS t p)) (snd (MapLS t p)) = p"
    if "HIWORD p \<noteq> 0 \<and> (\<exists>k. FIRST_LDT_ENTRY_TO_ALLOC \<le> k \<and> k < LDT_SIZE \<and> \<not> allocated t k)"
  proof -
    from that have hi: "HIWORD p \<noteq> 0"
      and fr: "\<exists>k. FIRST_LDT_ENTRY_TO_ALLOC \<le> k \<and> k < LDT_SIZE \<and> \<not> allocated t k" by blast+
    have nz: "SELECTOROF (snd (MapLS t p)) \<noteq> 0"
      by (simp only: MapLS_snd [OF hi]) (rule AllocArray_one_free [OF fr])
    with MapLS_MapSL [OF hi nz] show ?thesis by blast
  qed
  have c: "MapLS t p = (t, 0)"
    if "HIWORD p \<noteq> 0 \<and> (\<forall>k. FIRST_LDT_ENTRY_TO_ALLOC \<le> k \<and> k < LDT_SIZE \<longrightarrow> allocated t k)"
    using that MapLS_full [of p t] by blast
  from a b c show ?thesis by blast
qed

lemma empty_ldt_free: "\<not> allocated empty_ldt k"
  by (simp add: allocated_def empty_ldt_def)

theorem MapLS_roundtrip_witness:
  "HIWORD (0x1234 :: LPVOID) = 0 \<and> MapLS empty_ldt 0x1234 = (empty_ldt, 0x1234) \<and>
   UnMapLS empty_ldt (snd (MapLS empty_ldt 0x1234)) = empty_ldt \<and>
   HIWORD (0x12345 :: LPVOID) \<noteq> 0 \<and> \<not> allocated empty_ldt 17 \<and>
   SELECTOROF (snd (MapLS empty_ldt 0x12345)) \<noteq> 0 \<and>
   MapSL (fst (MapLS empty_ldt 0x12345)) (snd (MapLS empty_ldt 0x12345)) = 0x12345 \<and>
   allocated full_ldt 17 \<and> MapLS full_ldt 0x12345 = (full_ldt, 0)"
proof -
  have l: "HIWORD (0x1234 :: LPVOID) = 0" by (simp add: HIWORD_def)
  have h: "HIWORD (0x12345 :: LPVOID) \<noteq> 0" by (rule MapLS_empty_example(1))
  have f: "\<not> allocated empty_ldt 17" by (rule empty_ldt_free)
  have r: "FIRST_LDT_ENTRY_TO_ALLOC \<le> 17 \<and> (17 :: nat) < LDT_SIZE"
    by (simp add: FIRST_LDT_ENTRY_TO_ALLOC_def LDT_SIZE_def)
  from f r have ex: "\<exists>k. FIRST_LDT_ENTRY_TO_ALLOC \<le> k \<and> k < LDT_SIZE \<and> \<not> allocated empty_ldt k"
    by blast
  have al: "\<forall>k. FIRST_LDT_ENTRY_TO_ALLOC \<le> k \<and> k < LDT_SIZE \<longrightarrow> allocated full_ldt k"
    by (simp add: full_ldt_allocated)
  from l MapLS_roundtrip [of "0x1234" empty_ldt]
  have a: "MapLS empty_ldt 0x1234 = (empty_ldt, 0x1234) \<and>
      UnMapLS empty_ldt (snd (MapLS empty_ldt 0x1234)) = empty_ldt" by blast
  from h ex MapLS_roundtrip [of "0x12345" empty_ldt]
  have b: "SELECTOROF (snd (MapLS empty_ldt 0x12345)) \<noteq> 0 \<and>
      MapSL (fst (MapLS empty_ldt 0x12345)) (snd (MapLS empty_ldt 0x12345)) = 0x12345" by blast
  from h al MapLS_roundtrip [of "0x12345" full_ldt]
  have c: "MapLS full_ldt 0x12345 = (full_ldt, 0)" by blast
  from l a h f b c full_ldt_allocated [of 17] show ?thesis by blast
qed

text \<open>
  On a table with no free slot, \<open>MapLS\<close> of an address with a nonzero high word returns
  the null selector.
\<close>

theorem MapLS_null_when_full:
  "HIWORD (0x12345 :: LPVOID) \<noteq> 0 \<and> SELECTOROF (snd (MapLS full_ldt 0x12345)) = 0"
proof -
  have al: "\<forall>k. FIRST_LDT_ENTRY_TO_ALLOC \<le> k \<and> k < LDT_SIZE \<longrightarrow> allocated full_ldt k"
    by (simp add: full_ldt_allocated)
  have "MapLS full_ldt 0x12345 = (full_ldt, 0)"
    by (rule MapLS_full [OF MapLS_empty_example(1) al])
  then show ?thesis using MapLS_empty_example(1) by (simp add: SELECTOROF_def HIWORD_def)
qed

section \<open>Aliases\<close>

lemma bit_0x40: "bit (0x40 :: int) n \<longleftrightarrow> n = 6"
proof -
  define m :: nat where "m = 6"
  have e: "(0x40 :: int) = 2 ^ m" by (simp add: m_def)
  have "bit (2 ^ m :: int) n \<longleftrightarrow> n = m" by (auto simp: bit_exp_iff)
  then show ?thesis by (simp only: e m_def)
qed

lemma bit6: "(x :: 8 word) AND 0x40 = (if bit x 6 then 0x40 else 0)"
  by (rule bit_eqI) (auto simp: bit_and_iff bit_0x40)

lemma type_bits: "WINE_LDT_FLAGS_DATA AND 0x1f = WINE_LDT_FLAGS_DATA"
  "WINE_LDT_FLAGS_CODE AND 0x1f = WINE_LDT_FLAGS_CODE"
  "WINE_LDT_FLAGS_DATA AND 0x40 = 0" "WINE_LDT_FLAGS_CODE AND 0x40 = 0"
  "WINE_LDT_FLAGS_DATA AND WINE_LDT_FLAGS_ALLOCATED = 0"
  "WINE_LDT_FLAGS_CODE AND WINE_LDT_FLAGS_ALLOCATED = 0"
  by (simp_all add: WINE_LDT_FLAGS_DATA_def WINE_LDT_FLAGS_CODE_def WINE_LDT_FLAGS_ALLOCATED_def)

lemma alias_flags:
  assumes "ty AND 0x1f = ty" and "ty AND 0x40 = 0" and "ty AND WINE_LDT_FLAGS_ALLOCATED = 0"
  shows "(wine_ldt_get_flags ((wine_ldt_get_entry t sel)\<lparr>Type := ty\<rparr>) OR WINE_LDT_FLAGS_ALLOCATED) AND 0x1f = ty"
    and "(wine_ldt_get_flags ((wine_ldt_get_entry t sel)\<lparr>Type := ty\<rparr>) OR WINE_LDT_FLAGS_ALLOCATED) AND 0x40
           = ldt_flags t (sel_index sel) AND 0x40"
proof -
  have g: "wine_ldt_get_flags ((wine_ldt_get_entry t sel)\<lparr>Type := ty\<rparr>) =
      (if bit (ldt_flags t (sel_index sel)) 6 then ty OR 0x40 else ty)"
    by (simp add: wine_ldt_get_flags_def wine_ldt_get_entry_def wine_ldt_set_flags_def
        wine_ldt_set_limit_def wine_ldt_set_base_def Let_def WINE_LDT_FLAGS_32BIT_def bit6)
  show "(wine_ldt_get_flags ((wine_ldt_get_entry t sel)\<lparr>Type := ty\<rparr>) OR WINE_LDT_FLAGS_ALLOCATED) AND 0x1f = ty"
    using assms(1) by (simp add: g WINE_LDT_FLAGS_ALLOCATED_def bit.conj_disj_distrib2)
  show "(wine_ldt_get_flags ((wine_ldt_get_entry t sel)\<lparr>Type := ty\<rparr>) OR WINE_LDT_FLAGS_ALLOCATED) AND 0x40
           = ldt_flags t (sel_index sel) AND 0x40"
  proof -
    from assms(2) have nb: "\<not> bit ty 6" by (simp add: bit6 split: if_splits)
    show ?thesis
      by (simp add: g WINE_LDT_FLAGS_ALLOCATED_def bit6 bit_or_iff nb)
  qed
qed

lemma AllocArray_one:
  assumes al: "SELECTOR_AllocArray t 1 = (t1, newsel)" and nz: "newsel \<noteq> 0"
  shows "FIRST_LDT_ENTRY_TO_ALLOC \<le> sel_index newsel"
    and "sel_index newsel < LDT_SIZE"
    and "\<not> allocated t (sel_index newsel)"
    and "slot t1 k =
          (if k = sel_index newsel
           then (ldt_base t k, ldt_limit t k, ldt_flags t k OR WINE_LDT_FLAGS_ALLOCATED)
           else slot t k)"
proof -
  from AllocArray_cases [OF al] nz
  obtain s where s: "newsel = push_bit AHSHIFT (of_nat s) OR 7"
      "FIRST_LDT_ENTRY_TO_ALLOC \<le> s" "s + unat (1 :: WORD) \<le> LDT_SIZE"
      "\<forall>k. s \<le> k \<and> k < s + unat (1 :: WORD) \<longrightarrow> \<not> allocated t k"
      "t1 = AllocArray_mark t s 0 (unat (1 :: WORD))"
    by auto
  from s(3) have lt: "s + 0 < 8192" by (simp add: LDT_SIZE_def)
  have "sel_index ((push_bit AHSHIFT (of_nat s) OR 7) + push_bit AHSHIFT (of_nat 0)) = s + 0"
    by (rule sel_index_make [OF lt])
  then have ix: "sel_index newsel = s" by (simp add: s(1))
  show "FIRST_LDT_ENTRY_TO_ALLOC \<le> sel_index newsel" unfolding ix by (rule s(2))
  show "sel_index newsel < LDT_SIZE" unfolding ix using s(3) by simp
  show "\<not> allocated t (sel_index newsel)" unfolding ix using s(4) by simp
  show "slot t1 k =
          (if k = sel_index newsel
           then (ldt_base t k, ldt_limit t k, ldt_flags t k OR WINE_LDT_FLAGS_ALLOCATED)
           else slot t k)"
    unfolding ix s(5) by (auto simp: mark_flags mark_base mark_limit slot_def)
qed

lemma Free_slot_other:
  "k \<noteq> sel_index s \<Longrightarrow> slot (fst (FreeSelector16 t s)) k = slot t k"
  by (simp add: FreeSelector16_def Let_def slot_def wine_ldt_set_entry_def)

lemma get_entry_fields:
  "wine_ldt_get_base ((wine_ldt_get_entry t sel)\<lparr>Type := ty\<rparr>) = ldt_base t (sel_index sel)"
  "wine_ldt_get_limit ((wine_ldt_get_entry t sel)\<lparr>Type := ty\<rparr>) = page_granular (ldt_limit t (sel_index sel))"
proof -
  show "wine_ldt_get_base ((wine_ldt_get_entry t sel)\<lparr>Type := ty\<rparr>) = ldt_base t (sel_index sel)"
    by (simp add: wine_ldt_get_entry_def Let_def wine_ldt_get_base_def wine_ldt_set_flags_def
        wine_ldt_set_limit_def wine_ldt_set_base_def)
  have "wine_ldt_get_limit ((wine_ldt_get_entry t sel)\<lparr>Type := ty\<rparr>) =
        wine_ldt_get_limit (wine_ldt_set_limit (wine_ldt_set_base zero_entry (ldt_base t (sel_index sel)))
           (ldt_limit t (sel_index sel)))"
    by (simp add: wine_ldt_get_entry_def Let_def wine_ldt_get_limit_def wine_ldt_set_flags_def)
  then show "wine_ldt_get_limit ((wine_ldt_get_entry t sel)\<lparr>Type := ty\<rparr>) =
        page_granular (ldt_limit t (sel_index sel))"
    by (simp only: get_set_limit)
qed

lemma alias_common:
  assumes al: "SELECTOR_AllocArray t 1 = (t1, newsel)" and nz: "newsel \<noteq> 0"
    and t': "t' = wine_ldt_set_entry t1 newsel ((wine_ldt_get_entry t1 sel)\<lparr>Type := ty\<rparr>)"
    and src: "allocated t (sel_index sel)"
    and ty: "ty AND 0x1f = ty" "ty AND 0x40 = 0" "ty AND WINE_LDT_FLAGS_ALLOCATED = 0"
  shows "sel_index newsel \<noteq> sel_index sel \<and>
         \<not> allocated t (sel_index newsel) \<and> allocated t' (sel_index newsel) \<and>
         ldt_base t' (sel_index newsel) = ldt_base t (sel_index sel) \<and>
         ldt_limit t' (sel_index newsel) = page_granular (ldt_limit t (sel_index sel)) \<and>
         ldt_flags t' (sel_index newsel) AND 0x1f = ty \<and>
         ldt_flags t' (sel_index newsel) AND 0x40 = ldt_flags t (sel_index sel) AND 0x40 \<and>
         slot t' (sel_index sel) = slot t (sel_index sel) \<and>
         slot (fst (FreeSelector16 t' newsel)) (sel_index sel) = slot t (sel_index sel)"
proof -
  let ?k = "sel_index newsel" and ?j = "sel_index sel"
  let ?e = "(wine_ldt_get_entry t1 sel)\<lparr>Type := ty\<rparr>"
  note a = AllocArray_one [OF al nz]
  from a(3) src have ne: "?k \<noteq> ?j" by auto
  have k0: "?k \<noteq> 0" using a(1) FIRST_pos by simp
  have sj: "slot t1 ?j = slot t ?j" using a(4) [of ?j] ne by simp
  then have j1: "ldt_base t1 ?j = ldt_base t ?j" "ldt_limit t1 ?j = ldt_limit t ?j"
      "ldt_flags t1 ?j = ldt_flags t ?j"
    by (simp_all add: slot_def)
  have fk: "ldt_flags t1 ?k = ldt_flags t ?k OR WINE_LDT_FLAGS_ALLOCATED"
    using a(4) [of ?k] by (simp add: slot_def)
  have st: "slot t' i = (if i = ?k then written ?e (ldt_flags t1 i) else slot t1 i)" for i
    unfolding t' by (rule set_entry_slot [OF k0])
  have wk: "slot t' ?k = (ldt_base t ?j, page_granular (ldt_limit t ?j),
      wine_ldt_get_flags ?e OR WINE_LDT_FLAGS_ALLOCATED)"
    by (simp add: st written_def get_entry_fields j1 fk)
  then have c3: "allocated t' ?k"
    by (simp add: slot_def allocated_def WINE_LDT_FLAGS_ALLOCATED_def)
  from wk have c4: "ldt_base t' ?k = ldt_base t ?j"
    and c5: "ldt_limit t' ?k = page_granular (ldt_limit t ?j)"
    and fl: "ldt_flags t' ?k = wine_ldt_get_flags ?e OR WINE_LDT_FLAGS_ALLOCATED"
    by (simp_all add: slot_def)
  have c6: "ldt_flags t' ?k AND 0x1f = ty"
    unfolding fl by (rule alias_flags(1) [OF ty])
  have c7: "ldt_flags t' ?k AND 0x40 = ldt_flags t ?j AND 0x40"
    unfolding fl by (simp only: alias_flags(2) [OF ty] j1)
  have c8: "slot t' ?j = slot t ?j" using st [of ?j] ne sj by simp
  have c9: "slot (fst (FreeSelector16 t' newsel)) ?j = slot t ?j"
    using Free_slot_other [of ?j newsel t'] ne c8 by simp
  from ne a(3) c3 c4 c5 c6 c7 c8 c9 show ?thesis by blast
qed

lemma AllocArray_null:
  assumes "SELECTOR_AllocArray t count = (t1, 0)"
  shows "t1 = t"
  using AllocArray_cases [OF assms] or7_nonzero by (auto simp: eq_commute [of 0])

lemma CStoDS_alias:
  assumes "AllocCStoDSAlias16 t sel = (t', newsel)" and "newsel \<noteq> 0"
    and "allocated t (sel_index sel)"
  shows "alias_of t sel t' newsel WINE_LDT_FLAGS_DATA"
proof -
  obtain t1 where al: "SELECTOR_AllocArray t 1 = (t1, newsel)"
    and t': "t' = wine_ldt_set_entry t1 newsel ((wine_ldt_get_entry t1 sel)\<lparr>Type := WINE_LDT_FLAGS_DATA\<rparr>)"
    using assms(1,2)
    by (cases "SELECTOR_AllocArray t 1") (auto simp: AllocCStoDSAlias16_def Let_def split: if_splits)
  show ?thesis
    unfolding alias_of_def
    by (rule alias_common [OF al assms(2) t' assms(3) type_bits(1) type_bits(3) type_bits(5)])
qed

lemma DStoCS_alias:
  assumes "AllocDStoCSAlias16 t sel = (t', newsel)" and "newsel \<noteq> 0"
    and "allocated t (sel_index sel)"
  shows "alias_of t sel t' newsel WINE_LDT_FLAGS_CODE"
proof -
  obtain t1 where al: "SELECTOR_AllocArray t 1 = (t1, newsel)"
    and t': "t' = wine_ldt_set_entry t1 newsel ((wine_ldt_get_entry t1 sel)\<lparr>Type := WINE_LDT_FLAGS_CODE\<rparr>)"
    using assms(1,2)
    by (cases "SELECTOR_AllocArray t 1") (auto simp: AllocDStoCSAlias16_def Let_def split: if_splits)
  show ?thesis
    unfolding alias_of_def
    by (rule alias_common [OF al assms(2) t' assms(3) type_bits(2) type_bits(4) type_bits(6)])
qed

lemma alias_null:
  "AllocCStoDSAlias16 t sel = (t', 0) \<Longrightarrow> t' = t"
  "AllocDStoCSAlias16 t sel = (t', 0) \<Longrightarrow> t' = t"
proof -
  show "t' = t" if "AllocCStoDSAlias16 t sel = (t', 0)"
  proof (cases "SELECTOR_AllocArray t 1")
    case (Pair t1 n)
    with that have "n = 0" "t1 = t'"
      by (auto simp: AllocCStoDSAlias16_def Let_def split: if_splits)
    with Pair AllocArray_null [of t 1 t1] show ?thesis by simp
  qed
  show "t' = t" if "AllocDStoCSAlias16 t sel = (t', 0)"
  proof (cases "SELECTOR_AllocArray t 1")
    case (Pair t1 n)
    with that have "n = 0" "t1 = t'"
      by (auto simp: AllocDStoCSAlias16_def Let_def split: if_splits)
    with Pair AllocArray_null [of t 1 t1] show ?thesis by simp
  qed
qed

text \<open>
  Claim C9, as the code has it. For an allocated source slot, an alias that
  \<open>AllocCStoDSAlias16\<close> or \<open>AllocDStoCSAlias16\<close> returns (a non-null selector) is a slot
  that was free and is now allocated, with the source's base and limit and the source's
  32-bit flag; its type field is \<open>WINE_LDT_FLAGS_DATA\<close> for the first function and
  \<open>WINE_LDT_FLAGS_CODE\<close> for the second, whatever the source's type was, so the other
  type bits are overwritten, not preserved. The source's slot is unchanged, also after the
  alias is freed. When no slot is free, the null selector is returned and the table is
  unchanged.
\<close>

theorem alias_slot:
  "(AllocCStoDSAlias16 t sel = (t', newsel) \<and> newsel \<noteq> 0 \<and> allocated t (sel_index sel) \<longrightarrow>
      alias_of t sel t' newsel WINE_LDT_FLAGS_DATA) \<and>
   (AllocDStoCSAlias16 t sel = (t', newsel) \<and> newsel \<noteq> 0 \<and> allocated t (sel_index sel) \<longrightarrow>
      alias_of t sel t' newsel WINE_LDT_FLAGS_CODE) \<and>
   (AllocCStoDSAlias16 t sel = (t', 0) \<or> AllocDStoCSAlias16 t sel = (t', 0) \<longrightarrow> t' = t)"
  using CStoDS_alias [of t sel t' newsel] DStoCS_alias [of t sel t' newsel]
    alias_null [of t sel t'] by blast

lemma code_ldt_facts:
  "allocated code_ldt (sel_index 0x8f)"
  "\<not> allocated code_ldt 18"
  "ldt_flags code_ldt (sel_index 0x8f) = 0x99"
  by (simp_all add: code_ldt_def allocated_def sel_index_def AHSHIFT_def WINE_LDT_FLAGS_ALLOCATED_def)

lemma code_ldt_alloc: "snd (SELECTOR_AllocArray code_ldt 1) \<noteq> 0"
proof (rule AllocArray_one_free)
  have "FIRST_LDT_ENTRY_TO_ALLOC \<le> 18 \<and> (18 :: nat) < LDT_SIZE \<and> \<not> allocated code_ldt 18"
    by (simp add: FIRST_LDT_ENTRY_TO_ALLOC_def LDT_SIZE_def code_ldt_facts(2))
  then show "\<exists>k. FIRST_LDT_ENTRY_TO_ALLOC \<le> k \<and> k < LDT_SIZE \<and> \<not> allocated code_ldt k"
    by blast
qed

lemma code_ldt_alias_ok:
  "snd (AllocCStoDSAlias16 code_ldt 0x8f) \<noteq> 0"
  "snd (AllocDStoCSAlias16 code_ldt 0x8f) \<noteq> 0"
  using code_ldt_alloc
  by (cases "SELECTOR_AllocArray code_ldt 1";
      simp add: AllocCStoDSAlias16_def AllocDStoCSAlias16_def Let_def)+

theorem alias_slot_witness:
  "allocated code_ldt (sel_index 0x8f) \<and>
   snd (AllocCStoDSAlias16 code_ldt 0x8f) \<noteq> 0 \<and>
   alias_of code_ldt 0x8f (fst (AllocCStoDSAlias16 code_ldt 0x8f))
     (snd (AllocCStoDSAlias16 code_ldt 0x8f)) WINE_LDT_FLAGS_DATA \<and>
   snd (AllocDStoCSAlias16 code_ldt 0x8f) \<noteq> 0 \<and>
   alias_of code_ldt 0x8f (fst (AllocDStoCSAlias16 code_ldt 0x8f))
     (snd (AllocDStoCSAlias16 code_ldt 0x8f)) WINE_LDT_FLAGS_CODE \<and>
   AllocCStoDSAlias16 full_ldt 0x8f = (full_ldt, 0)"
proof -
  note a = code_ldt_facts(1) and b = code_ldt_alias_ok
  have f: "AllocCStoDSAlias16 full_ldt 0x8f = (fst (AllocCStoDSAlias16 full_ldt 0x8f), 0)"
    by (simp add: AllocCStoDSAlias16_def AllocArray_full_ldt)
  from f alias_slot [of full_ldt "0x8f" "fst (AllocCStoDSAlias16 full_ldt 0x8f)"]
  have "fst (AllocCStoDSAlias16 full_ldt 0x8f) = full_ldt" by blast
  with f have c: "AllocCStoDSAlias16 full_ldt 0x8f = (full_ldt, 0)" by simp
  from a b(1) alias_slot [of code_ldt "0x8f" "fst (AllocCStoDSAlias16 code_ldt 0x8f)"
      "snd (AllocCStoDSAlias16 code_ldt 0x8f)"]
  have d: "alias_of code_ldt 0x8f (fst (AllocCStoDSAlias16 code_ldt 0x8f))
     (snd (AllocCStoDSAlias16 code_ldt 0x8f)) WINE_LDT_FLAGS_DATA" by simp
  from a b(2) alias_slot [of code_ldt "0x8f" "fst (AllocDStoCSAlias16 code_ldt 0x8f)"
      "snd (AllocDStoCSAlias16 code_ldt 0x8f)"]
  have e: "alias_of code_ldt 0x8f (fst (AllocDStoCSAlias16 code_ldt 0x8f))
     (snd (AllocDStoCSAlias16 code_ldt 0x8f)) WINE_LDT_FLAGS_CODE" by simp
  from a b c d e show ?thesis by blast
qed

text \<open>
  The data alias of an execute-only code segment (type 0x19) has the type 0x13: apart from
  the code/data bit 0x08 the source's type bits are 0x11 and the alias's are 0x13, so the
  readable/writable bit is not preserved.
\<close>

theorem alias_access_bits_changed:
  "allocated code_ldt (sel_index 0x8f) \<and>
   snd (AllocCStoDSAlias16 code_ldt 0x8f) \<noteq> 0 \<and>
   (ldt_flags code_ldt (sel_index 0x8f) AND 0x1f) AND NOT 0x08 = 0x11 \<and>
   (ldt_flags (fst (AllocCStoDSAlias16 code_ldt 0x8f))
     (sel_index (snd (AllocCStoDSAlias16 code_ldt 0x8f))) AND 0x1f) AND NOT 0x08 = 0x13 \<and>
   (ldt_flags (fst (AllocCStoDSAlias16 code_ldt 0x8f))
     (sel_index (snd (AllocCStoDSAlias16 code_ldt 0x8f))) AND 0x1f) AND NOT 0x08
     \<noteq> (ldt_flags code_ldt (sel_index 0x8f) AND 0x1f) AND NOT 0x08"
proof -
  note a = code_ldt_facts(1) and b = code_ldt_alias_ok(1)
  from CStoDS_alias [OF prod.collapse [symmetric] b a]
  have "ldt_flags (fst (AllocCStoDSAlias16 code_ldt 0x8f))
     (sel_index (snd (AllocCStoDSAlias16 code_ldt 0x8f))) AND 0x1f = 0x13"
    by (simp add: alias_of_def WINE_LDT_FLAGS_DATA_def)
  then have "(ldt_flags (fst (AllocCStoDSAlias16 code_ldt 0x8f))
     (sel_index (snd (AllocCStoDSAlias16 code_ldt 0x8f))) AND 0x1f) AND NOT 0x08 = 0x13 AND NOT 0x08"
    by (rule arg_cong [where f = "\<lambda>x. x AND NOT 0x08"])
  also have "(0x13 :: UCHAR) AND NOT 0x08 = 0x13" by simp
  finally have c: "(ldt_flags (fst (AllocCStoDSAlias16 code_ldt 0x8f))
     (sel_index (snd (AllocCStoDSAlias16 code_ldt 0x8f))) AND 0x1f) AND NOT 0x08 = 0x13" .
  have d: "(ldt_flags code_ldt (sel_index 0x8f) AND 0x1f) AND NOT 0x08 = 0x11"
    by (simp add: code_ldt_facts(3))
  have "(0x13 :: UCHAR) \<noteq> 0x11" by simp
  with a b c d show ?thesis by (simp only: simp_thms)
qed

section \<open>Pointer validation\<close>

lemma offset_unat: "unat (ucast (off :: 16 word) :: 32 word) = unat off"
proof -
  have "unat off < 2 ^ 16" using unsigned_less [of off] by simp
  then have "unat off < 2 ^ 32" by simp
  then show ?thesis by (simp add: unsigned_ucast_eq take_bit_nat_eq_self)
qed

lemma range_end:
  assumes "sz \<noteq> 0" and "unat (off :: 16 word) + unat (sz :: 32 word) - 1 < 2 ^ 32"
  shows "unat (ucast off + sz - 1 :: 32 word) = unat off + unat sz - 1"
proof -
  have pos: "0 < unat sz" using assms(1) by (simp add: unat_gt_0)
  have u1: "unat (sz - 1) = unat sz - 1" using assms(1) by (simp add: unat_minus_one)
  have uo: "unat (ucast off :: 32 word) = unat off" by (rule offset_unat)
  have "unat (ucast off :: 32 word) + unat (sz - 1) < 2 ^ LENGTH(32)"
    using assms(2) pos by (simp add: u1 uo)
  then have "unat (ucast off + (sz - 1) :: 32 word) = unat (ucast off :: 32 word) + unat (sz - 1)"
    by (simp only: unat_add_lem)
  then have a: "unat (ucast off + (sz - 1) :: 32 word) = unat off + (unat sz - 1)"
    by (simp only: u1 uo)
  have e: "(ucast off + sz - 1 :: 32 word) = ucast off + (sz - 1)" by simp
  have "unat (ucast off + sz - 1 :: 32 word) = unat off + (unat sz - 1)"
    by (simp only: e a)
  also have "\<dots> = unat off + unat sz - 1" using pos by arith
  finally show ?thesis .
qed

lemma bit1_clear:
  assumes "ty AND 0x02 = (0 :: 8 word)"
  shows "(ty XOR WINE_LDT_FLAGS_DATA) AND NOT 5 \<noteq> 0"
proof
  assume z: "(ty XOR WINE_LDT_FLAGS_DATA) AND NOT 5 = 0"
  from assms have "bit (ty AND 0x02) 1 = bit (0 :: 8 word) 1" by simp
  then have nb: "\<not> bit ty 1" by (simp add: bit_and_iff)
  from z have "bit ((ty XOR WINE_LDT_FLAGS_DATA) AND NOT 5) 1 = bit (0 :: 8 word) 1" by simp
  with nb show False
    by (simp add: bit_and_iff bit_xor_iff bit_not_iff WINE_LDT_FLAGS_DATA_def)
qed

lemma bit3_clear:
  assumes "ty AND 0x08 = (0 :: 8 word)"
  shows "(ty XOR WINE_LDT_FLAGS_CODE) AND 0x18 \<noteq> 0"
proof
  assume z: "(ty XOR WINE_LDT_FLAGS_CODE) AND 0x18 = 0"
  from assms have "bit (ty AND 0x08) 3 = bit (0 :: 8 word) 3" by simp
  then have nb: "\<not> bit ty 3" by (simp add: bit_and_iff)
  from z have "bit ((ty XOR WINE_LDT_FLAGS_CODE) AND 0x18) 3 = bit (0 :: 8 word) 3" by simp
  with nb show False
    by (simp add: bit_and_iff bit_xor_iff WINE_LDT_FLAGS_CODE_def)
qed

lemma IsBad_null:
  assumes "SELECTOROF p = 0"
  shows "IsBadCodePtr16 t p" "IsBadHugeReadPtr16 t p sz" "IsBadHugeWritePtr16 t p sz"
  using assms by (simp_all add: IsBadCodePtr16_def IsBadHugeReadPtr16_def IsBadHugeWritePtr16_def)

lemma IsBad_past_limit:
  assumes "sz \<noteq> 0"
    and "unat (OFFSETOF p) + unat sz - 1 = unat (desc_limit t (SELECTOROF p)) + 1"
    and "unat (OFFSETOF p) + unat sz - 1 < 2 ^ 32"
  shows "IsBadHugeReadPtr16 t p sz" "IsBadHugeWritePtr16 t p sz"
proof -
  have "unat (ucast (OFFSETOF p) + sz - 1 :: 32 word) = unat (desc_limit t (SELECTOROF p)) + 1"
    using range_end [OF assms(1,3)] assms(2) by simp
  then have lt: "wine_ldt_get_limit (wine_ldt_get_entry t (SELECTOROF p)) < ucast (OFFSETOF p) + sz - 1"
    by (simp add: word_less_nat_alt desc_limit_def)
  show "IsBadHugeReadPtr16 t p sz"
    using lt assms(1) by (simp add: IsBadHugeReadPtr16_def Let_def)
  show "IsBadHugeWritePtr16 t p sz"
    using lt assms(1) by (simp add: IsBadHugeWritePtr16_def Let_def)
qed

lemma IsBadCode_past_limit:
  assumes "unat (OFFSETOF p) = unat (desc_limit t (SELECTOROF p)) + 1"
  shows "IsBadCodePtr16 t p"
proof -
  have lt: "wine_ldt_get_limit (wine_ldt_get_entry t (SELECTOROF p)) < ucast (OFFSETOF p)"
    using assms by (simp add: word_less_nat_alt desc_limit_def offset_unat)
  then show ?thesis by (simp add: IsBadCodePtr16_def Let_def)
qed

lemma IsBad_at_limit:
  assumes "SELECTOROF p \<noteq> 0" and "allocated t (sel_index (SELECTOROF p))"
    and "desc_type t (SELECTOROF p) = WINE_LDT_FLAGS_DATA"
    and "sz \<noteq> 0"
    and "unat (OFFSETOF p) + unat sz - 1 = unat (desc_limit t (SELECTOROF p))"
  shows "\<not> IsBadHugeReadPtr16 t p sz" "\<not> IsBadHugeWritePtr16 t p sz"
proof -
  have b: "unat (OFFSETOF p) + unat sz - 1 < 2 ^ 32"
    using assms(5) unsigned_less [of "desc_limit t (SELECTOROF p)"] by simp
  have "unat (ucast (OFFSETOF p) + sz - 1 :: 32 word) = unat (desc_limit t (SELECTOROF p))"
    using range_end [OF assms(4) b] assms(5) by simp
  then have nlt: "\<not> wine_ldt_get_limit (wine_ldt_get_entry t (SELECTOROF p)) < ucast (OFFSETOF p) + sz - 1"
    by (simp add: word_less_nat_alt desc_limit_def)
  have nf: "\<not> IS_SELECTOR_FREE t (SELECTOROF p)"
    using assms(2) by (simp add: IS_SELECTOR_FREE_def allocated_def)
  have ty: "Type (wine_ldt_get_entry t (SELECTOROF p)) = WINE_LDT_FLAGS_DATA"
    using assms(3) by (simp add: desc_type_def)
  show "\<not> IsBadHugeReadPtr16 t p sz"
    using assms(1) nf nlt by (simp add: IsBadHugeReadPtr16_def Let_def ty WINE_LDT_FLAGS_DATA_def)
  show "\<not> IsBadHugeWritePtr16 t p sz"
    using assms(1) nf nlt by (simp add: IsBadHugeWritePtr16_def Let_def ty)
qed

lemma IsBadCode_at_limit:
  assumes "SELECTOROF p \<noteq> 0" and "allocated t (sel_index (SELECTOROF p))"
    and "desc_type t (SELECTOROF p) = WINE_LDT_FLAGS_CODE"
    and "unat (OFFSETOF p) = unat (desc_limit t (SELECTOROF p))"
  shows "\<not> IsBadCodePtr16 t p"
proof -
  have nlt: "\<not> wine_ldt_get_limit (wine_ldt_get_entry t (SELECTOROF p)) < ucast (OFFSETOF p)"
    using assms(4) by (simp add: word_less_nat_alt desc_limit_def offset_unat)
  have nf: "\<not> IS_SELECTOR_FREE t (SELECTOROF p)"
    using assms(2) by (simp add: IS_SELECTOR_FREE_def allocated_def)
  have ty: "Type (wine_ldt_get_entry t (SELECTOROF p)) = WINE_LDT_FLAGS_CODE"
    using assms(3) by (simp add: desc_type_def)
  show ?thesis
    using assms(1) nf nlt by (simp add: IsBadCodePtr16_def Let_def ty)
qed

lemma IsBad_zero_length:
  assumes "SELECTOROF p \<noteq> 0" and "allocated t (sel_index (SELECTOROF p))"
    and "desc_type t (SELECTOROF p) = WINE_LDT_FLAGS_DATA"
  shows "\<not> IsBadHugeReadPtr16 t p 0" "\<not> IsBadHugeWritePtr16 t p 0"
proof -
  have nf: "\<not> IS_SELECTOR_FREE t (SELECTOROF p)"
    using assms(2) by (simp add: IS_SELECTOR_FREE_def allocated_def)
  have ty: "Type (wine_ldt_get_entry t (SELECTOROF p)) = WINE_LDT_FLAGS_DATA"
    using assms(3) by (simp add: desc_type_def)
  show "\<not> IsBadHugeReadPtr16 t p 0"
    using assms(1) nf by (simp add: IsBadHugeReadPtr16_def Let_def ty WINE_LDT_FLAGS_DATA_def)
  show "\<not> IsBadHugeWritePtr16 t p 0"
    using assms(1) nf by (simp add: IsBadHugeWritePtr16_def Let_def ty)
qed

lemma IsBadWrite_readonly:
  assumes "desc_type t (SELECTOROF p) AND 0x02 = 0"
  shows "IsBadHugeWritePtr16 t p sz"
  using bit1_clear [OF assms] by (simp add: IsBadHugeWritePtr16_def Let_def desc_type_def)

lemma IsBadCode_data:
  assumes "desc_type t (SELECTOROF p) AND 0x08 = 0"
  shows "IsBadCodePtr16 t p"
  using bit3_clear [OF assms] by (simp add: IsBadCodePtr16_def Let_def desc_type_def)

text \<open>
  Claim C3, as the code has it. \<open>IsBadCodePtr16\<close>, \<open>IsBadHugeReadPtr16\<close> and
  \<open>IsBadHugeWritePtr16\<close> (Execute, Read and Write intent) report a bad pointer for the
  null selector. For a nonzero length whose last byte \<open>offset + length - 1\<close> (a value
  below \<open>2^32\<close>) is one past the descriptor's limit, Read and Write report a bad pointer,
  and so does Execute for an offset one past the limit; on an allocated slot of type
  \<open>WINE_LDT_FLAGS_DATA\<close> a nonzero length whose last byte is the limit is accepted for
  Read and Write, a zero length is accepted at any offset, and on an allocated slot of
  type \<open>WINE_LDT_FLAGS_CODE\<close> Execute accepts the offset equal to the limit. Write is
  rejected when the type lacks the writable bit 0x02 (read-only data), and Execute is
  rejected when the type lacks the code bit 0x08 (a data slot).
\<close>

theorem validate_pointer:
  "(SELECTOROF p = 0 \<longrightarrow>
      IsBadCodePtr16 t p \<and> IsBadHugeReadPtr16 t p sz \<and> IsBadHugeWritePtr16 t p sz) \<and>
   (sz \<noteq> 0 \<and> unat (OFFSETOF p) + unat sz - 1 = unat (desc_limit t (SELECTOROF p)) + 1 \<and>
    unat (OFFSETOF p) + unat sz - 1 < 2 ^ 32 \<longrightarrow>
      IsBadHugeReadPtr16 t p sz \<and> IsBadHugeWritePtr16 t p sz) \<and>
   (unat (OFFSETOF p) = unat (desc_limit t (SELECTOROF p)) + 1 \<longrightarrow> IsBadCodePtr16 t p) \<and>
   (SELECTOROF p \<noteq> 0 \<and> allocated t (sel_index (SELECTOROF p)) \<and>
    desc_type t (SELECTOROF p) = WINE_LDT_FLAGS_DATA \<and> sz \<noteq> 0 \<and>
    unat (OFFSETOF p) + unat sz - 1 = unat (desc_limit t (SELECTOROF p)) \<longrightarrow>
      \<not> IsBadHugeReadPtr16 t p sz \<and> \<not> IsBadHugeWritePtr16 t p sz) \<and>
   (SELECTOROF p \<noteq> 0 \<and> allocated t (sel_index (SELECTOROF p)) \<and>
    desc_type t (SELECTOROF p) = WINE_LDT_FLAGS_DATA \<longrightarrow>
      \<not> IsBadHugeReadPtr16 t p 0 \<and> \<not> IsBadHugeWritePtr16 t p 0) \<and>
   (SELECTOROF p \<noteq> 0 \<and> allocated t (sel_index (SELECTOROF p)) \<and>
    desc_type t (SELECTOROF p) = WINE_LDT_FLAGS_CODE \<and>
    unat (OFFSETOF p) = unat (desc_limit t (SELECTOROF p)) \<longrightarrow> \<not> IsBadCodePtr16 t p) \<and>
   (desc_type t (SELECTOROF p) AND 0x02 = 0 \<longrightarrow> IsBadHugeWritePtr16 t p sz) \<and>
   (desc_type t (SELECTOROF p) AND 0x08 = 0 \<longrightarrow> IsBadCodePtr16 t p)"
proof (intro conjI impI)
  assume "SELECTOROF p = 0"
  then show "IsBadCodePtr16 t p" "IsBadHugeReadPtr16 t p sz" "IsBadHugeWritePtr16 t p sz"
    by (rule IsBad_null)+
next
  assume a: "sz \<noteq> 0 \<and> unat (OFFSETOF p) + unat sz - 1 = unat (desc_limit t (SELECTOROF p)) + 1 \<and>
    unat (OFFSETOF p) + unat sz - 1 < 2 ^ 32"
  then show "IsBadHugeReadPtr16 t p sz" "IsBadHugeWritePtr16 t p sz"
    using IsBad_past_limit [of sz p t] by blast+
next
  assume "unat (OFFSETOF p) = unat (desc_limit t (SELECTOROF p)) + 1"
  then show "IsBadCodePtr16 t p" by (rule IsBadCode_past_limit)
next
  assume a: "SELECTOROF p \<noteq> 0 \<and> allocated t (sel_index (SELECTOROF p)) \<and>
    desc_type t (SELECTOROF p) = WINE_LDT_FLAGS_DATA \<and> sz \<noteq> 0 \<and>
    unat (OFFSETOF p) + unat sz - 1 = unat (desc_limit t (SELECTOROF p))"
  then show "\<not> IsBadHugeReadPtr16 t p sz" "\<not> IsBadHugeWritePtr16 t p sz"
    using IsBad_at_limit [of p t sz] by blast+
next
  assume a: "SELECTOROF p \<noteq> 0 \<and> allocated t (sel_index (SELECTOROF p)) \<and>
    desc_type t (SELECTOROF p) = WINE_LDT_FLAGS_DATA"
  then show "\<not> IsBadHugeReadPtr16 t p 0" "\<not> IsBadHugeWritePtr16 t p 0"
    using IsBad_zero_length [of p t] by blast+
next
  assume a: "SELECTOROF p \<noteq> 0 \<and> allocated t (sel_index (SELECTOROF p)) \<and>
    desc_type t (SELECTOROF p) = WINE_LDT_FLAGS_CODE \<and>
    unat (OFFSETOF p) = unat (desc_limit t (SELECTOROF p))"
  then show "\<not> IsBadCodePtr16 t p"
    using IsBadCode_at_limit [of p t] by blast
next
  assume "desc_type t (SELECTOROF p) AND 0x02 = 0"
  then show "IsBadHugeWritePtr16 t p sz" by (rule IsBadWrite_readonly)
next
  assume "desc_type t (SELECTOROF p) AND 0x08 = 0"
  then show "IsBadCodePtr16 t p" by (rule IsBadCode_data)
qed

lemma seg_ldt_facts:
  "SELECTOROF 0x008f0800 = 0x8f" "OFFSETOF 0x008f0800 = 0x800"
  "SELECTOROF 0x008f1001 = 0x8f" "OFFSETOF 0x008f1001 = 0x1001"
  "SELECTOROF 0x00970000 = 0x97" "SELECTOROF 0x009f0FFF = 0x9f" "OFFSETOF 0x009f0FFF = 0xFFF"
  "SELECTOROF 0x009f1000 = 0x9f" "OFFSETOF 0x009f1000 = 0x1000"
  "SELECTOROF 0x00000010 = 0"
  "sel_index 0x8f = 17" "sel_index 0x97 = 18" "sel_index 0x9f = 19"
  "allocated seg_ldt 17" "allocated seg_ldt 18" "allocated seg_ldt 19"
  "desc_limit seg_ldt 0x8f = 0xFFF" "desc_limit seg_ldt 0x97 = 0xFFF" "desc_limit seg_ldt 0x9f = 0xFFF"
  "desc_type seg_ldt 0x8f = WINE_LDT_FLAGS_DATA" "desc_type seg_ldt 0x97 = 0x11"
  "desc_type seg_ldt 0x9f = WINE_LDT_FLAGS_CODE"
  by (simp_all add: SELECTOROF_def OFFSETOF_def HIWORD_def sel_index_def AHSHIFT_def allocated_def
      seg_ldt_def desc_limit_def desc_type_def wine_ldt_get_entry_def wine_ldt_get_limit_def
      wine_ldt_set_limit_def wine_ldt_set_base_def wine_ldt_set_flags_def zero_entry_def Let_def
      WINE_LDT_FLAGS_ALLOCATED_def WINE_LDT_FLAGS_DATA_def WINE_LDT_FLAGS_CODE_def
      WINE_LDT_FLAGS_32BIT_def)

theorem validate_pointer_witness:
  "IsBadHugeReadPtr16 seg_ldt 0x00000010 1 \<and> IsBadCodePtr16 seg_ldt 0x00000010 \<and>
   IsBadHugeReadPtr16 seg_ldt 0x008f0800 0x801 \<and> IsBadHugeWritePtr16 seg_ldt 0x008f0800 0x801 \<and>
   \<not> IsBadHugeReadPtr16 seg_ldt 0x008f0800 0x800 \<and> \<not> IsBadHugeWritePtr16 seg_ldt 0x008f0800 0x800 \<and>
   \<not> IsBadHugeReadPtr16 seg_ldt 0x008f1001 0 \<and>
   IsBadCodePtr16 seg_ldt 0x009f1000 \<and> \<not> IsBadCodePtr16 seg_ldt 0x009f0FFF \<and>
   IsBadHugeWritePtr16 seg_ldt 0x00970000 1 \<and> IsBadCodePtr16 seg_ldt 0x008f0800"
proof -
  note f = seg_ldt_facts
  have h0: "SELECTOROF 0x00000010 = 0" by (rule f)
  have h1: "(0x801 :: DWORD) \<noteq> 0 \<and>
      unat (OFFSETOF 0x008f0800) + unat (0x801 :: DWORD) - 1 = unat (desc_limit seg_ldt (SELECTOROF 0x008f0800)) + 1 \<and>
      unat (OFFSETOF 0x008f0800) + unat (0x801 :: DWORD) - 1 < 2 ^ 32"
    by (simp add: f)
  have h2: "SELECTOROF 0x008f0800 \<noteq> 0 \<and> allocated seg_ldt (sel_index (SELECTOROF 0x008f0800)) \<and>
      desc_type seg_ldt (SELECTOROF 0x008f0800) = WINE_LDT_FLAGS_DATA \<and> (0x800 :: DWORD) \<noteq> 0 \<and>
      unat (OFFSETOF 0x008f0800) + unat (0x800 :: DWORD) - 1 = unat (desc_limit seg_ldt (SELECTOROF 0x008f0800))"
    by (simp add: f)
  have h3: "SELECTOROF 0x008f1001 \<noteq> 0 \<and> allocated seg_ldt (sel_index (SELECTOROF 0x008f1001)) \<and>
      desc_type seg_ldt (SELECTOROF 0x008f1001) = WINE_LDT_FLAGS_DATA"
    by (simp add: f)
  have h4: "unat (OFFSETOF 0x009f1000) = unat (desc_limit seg_ldt (SELECTOROF 0x009f1000)) + 1"
    by (simp add: f)
  have h5: "SELECTOROF 0x009f0FFF \<noteq> 0 \<and> allocated seg_ldt (sel_index (SELECTOROF 0x009f0FFF)) \<and>
      desc_type seg_ldt (SELECTOROF 0x009f0FFF) = WINE_LDT_FLAGS_CODE \<and>
      unat (OFFSETOF 0x009f0FFF) = unat (desc_limit seg_ldt (SELECTOROF 0x009f0FFF))"
    by (simp add: f)
  have h6: "desc_type seg_ldt (SELECTOROF 0x00970000) AND 0x02 = 0" by (simp add: f)
  have h7: "desc_type seg_ldt (SELECTOROF 0x008f0800) AND 0x08 = 0"
    by (simp add: f WINE_LDT_FLAGS_DATA_def)
  from h0 validate_pointer [of "0x00000010" seg_ldt 1]
  have c0: "IsBadHugeReadPtr16 seg_ldt 0x00000010 1 \<and> IsBadCodePtr16 seg_ldt 0x00000010" by blast
  from h1 validate_pointer [of "0x008f0800" seg_ldt "0x801"]
  have c1: "IsBadHugeReadPtr16 seg_ldt 0x008f0800 0x801 \<and> IsBadHugeWritePtr16 seg_ldt 0x008f0800 0x801"
    by blast
  from h2 validate_pointer [of "0x008f0800" seg_ldt "0x800"]
  have c2: "\<not> IsBadHugeReadPtr16 seg_ldt 0x008f0800 0x800 \<and> \<not> IsBadHugeWritePtr16 seg_ldt 0x008f0800 0x800"
    by blast
  from h3 validate_pointer [of "0x008f1001" seg_ldt 0]
  have c3: "\<not> IsBadHugeReadPtr16 seg_ldt 0x008f1001 0" by blast
  from h4 validate_pointer [of "0x009f1000" seg_ldt 0]
  have c4: "IsBadCodePtr16 seg_ldt 0x009f1000" by blast
  from h5 validate_pointer [of "0x009f0FFF" seg_ldt 0]
  have c5: "\<not> IsBadCodePtr16 seg_ldt 0x009f0FFF" by blast
  from h6 validate_pointer [of "0x00970000" seg_ldt 1]
  have c6: "IsBadHugeWritePtr16 seg_ldt 0x00970000 1" by blast
  from h7 validate_pointer [of "0x008f0800" seg_ldt 0]
  have c7: "IsBadCodePtr16 seg_ldt 0x008f0800" by blast
  from c0 c1 c2 c3 c4 c5 c6 c7 show ?thesis by blast
qed

text \<open>
  A zero length at offset 0x1001 in a data segment of limit 0xFFF: \<open>offset + length - 1\<close>
  is 0x1000, one past the limit, and the pointer is accepted for Read and for Write.
\<close>

theorem zero_length_accepted:
  "SELECTOROF 0x008f1001 \<noteq> 0 \<and>
   unat (OFFSETOF 0x008f1001) + unat (0 :: DWORD) - 1 =
     unat (desc_limit seg_ldt (SELECTOROF 0x008f1001)) + 1 \<and>
   \<not> IsBadHugeReadPtr16 seg_ldt 0x008f1001 0 \<and> \<not> IsBadHugeWritePtr16 seg_ldt 0x008f1001 0"
proof -
  note f = seg_ldt_facts
  have h3: "SELECTOROF 0x008f1001 \<noteq> 0" "allocated seg_ldt (sel_index (SELECTOROF 0x008f1001))"
      "desc_type seg_ldt (SELECTOROF 0x008f1001) = WINE_LDT_FLAGS_DATA"
    by (simp_all add: f)
  have e: "unat (OFFSETOF 0x008f1001) + unat (0 :: DWORD) - 1 =
     unat (desc_limit seg_ldt (SELECTOROF 0x008f1001)) + 1"
    by (simp add: f)
  from h3(1) e IsBad_zero_length [OF h3] show ?thesis by blast
qed

section \<open>Resizing a block\<close>

lemma Realloc_mark_eq: "Realloc_mark t index i n = AllocArray_mark t index i n"
proof (induction t index i n rule: Realloc_mark.induct)
  case (1 t index i n)
  show ?case
  proof (cases "i < n")
    case True
    with "1.IH" show ?thesis
      by (simp add: Realloc_mark.simps [of t index i n] AllocArray_mark.simps [of t index i n])
  next
    case False
    then show ?thesis
      by (simp add: Realloc_mark.simps [of t index i n] AllocArray_mark.simps [of t index i n])
  qed
qed

lemma Realloc_check_free:
  "(\<forall>j. i \<le> j \<and> j < n \<longrightarrow> \<not> allocated t (index + j)) \<Longrightarrow> i \<le> n \<Longrightarrow>
   Realloc_check t index i n = n"
proof (induction t index i n rule: Realloc_check.induct)
  case (1 t index i n)
  show ?case
  proof (cases "i < n")
    case False
    with "1.prems"(2) have "i = n" by simp
    then show ?thesis by (simp add: Realloc_check.simps [of t index n n])
  next
    case True
    with "1.prems"(1) have "\<not> allocated t (index + i)" by simp
    then have f: "\<not> ldt_flags t (index + i) AND WINE_LDT_FLAGS_ALLOCATED \<noteq> 0"
      by (simp add: allocated_def)
    have p1: "\<forall>j. i + 1 \<le> j \<and> j < n \<longrightarrow> \<not> allocated t (index + j)"
      using "1.prems"(1) by simp
    have p2: "i + 1 \<le> n" using True by simp
    have "Realloc_check t index (i + 1) n = n" by (rule "1.IH" [OF True f p1 p2])
    then show ?thesis using True f by (simp add: Realloc_check.simps [of t index i n])
  qed
qed

lemma Realloc_check_found:
  "Realloc_check t index i n < n \<Longrightarrow>
   \<exists>j. i \<le> j \<and> j < n \<and> allocated t (index + j)"
proof (induction t index i n rule: Realloc_check.induct)
  case (1 t index i n)
  show ?case
  proof (cases "i < n")
    case False
    then have "Realloc_check t index i n = i" by (simp add: Realloc_check.simps [of t index i n])
    with "1.prems" False show ?thesis by simp
  next
    case True
    show ?thesis
    proof (cases "allocated t (index + i)")
      case a: True
      with True show ?thesis by blast
    next
      case False
      then have f: "\<not> ldt_flags t (index + i) AND WINE_LDT_FLAGS_ALLOCATED \<noteq> 0"
        by (simp add: allocated_def)
      then have "Realloc_check t index i n = Realloc_check t index (i + 1) n"
        using True by (simp add: Realloc_check.simps [of t index i n])
      with "1.prems" have "Realloc_check t index (i + 1) n < n" by simp
      from "1.IH" [OF True f this] obtain j where "i + 1 \<le> j" "j < n" "allocated t (index + j)"
        by blast
      then have "i \<le> j \<and> j < n \<and> allocated t (index + j)" by simp
      then show ?thesis by blast
    qed
  qed
qed

lemma scan_too_long:
  "sz + (LDT_SIZE - i) < unat count \<Longrightarrow> fst (AllocArray_scan t count i sz) = max i LDT_SIZE"
proof (induction t count i sz rule: AllocArray_scan.induct)
  case (1 t count i sz)
  show ?case
  proof (cases "i < LDT_SIZE")
    case False
    then have "AllocArray_scan t count i sz = (i, sz)"
      by (simp add: AllocArray_scan.simps [of t count i sz])
    with False show ?thesis by simp
  next
    case True
    show ?thesis
    proof (cases "ldt_flags t i AND WINE_LDT_FLAGS_ALLOCATED \<noteq> 0")
      case a: True
      have p: "0 + (LDT_SIZE - (i + 1)) < unat count" using "1.prems" True by simp
      have "fst (AllocArray_scan t count (i + 1) 0) = max (i + 1) LDT_SIZE"
        by (rule "1.IH"(1) [OF True a p])
      then show ?thesis using True a by (simp add: AllocArray_scan.simps [of t count i sz])
    next
      case f: False
      have nb: "\<not> unat count \<le> sz + 1" using "1.prems" True by simp
      have p: "sz + 1 + (LDT_SIZE - (i + 1)) < unat count" using "1.prems" True by simp
      have "fst (AllocArray_scan t count (i + 1) (sz + 1)) = max (i + 1) LDT_SIZE"
        by (rule "1.IH"(2) [OF True f nb p])
      then show ?thesis using True f nb by (simp add: AllocArray_scan.simps [of t count i sz])
    qed
  qed
qed

lemma AllocArray_too_long:
  assumes "LDT_SIZE - FIRST_LDT_ENTRY_TO_ALLOC < unat count"
  shows "SELECTOR_AllocArray t count = (t, 0)"
proof -
  have "fst (AllocArray_scan t count FIRST_LDT_ENTRY_TO_ALLOC 0) = max FIRST_LDT_ENTRY_TO_ALLOC LDT_SIZE"
    by (rule scan_too_long) (use assms in simp)
  then have "fst (AllocArray_scan t count FIRST_LDT_ENTRY_TO_ALLOC 0) = LDT_SIZE"
    using FIRST_lt by simp
  then show ?thesis
    by (cases "AllocArray_scan t count FIRST_LDT_ENTRY_TO_ALLOC 0")
       (simp add: SELECTOR_AllocArray_def)
qed

lemma first_flags_no_alloc:
  "wine_ldt_get_flags (SetEntries_first b sz fl) AND WINE_LDT_FLAGS_ALLOCATED = 0"
  by (simp only: first_flags)
     (simp add: wine_ldt_get_flags_def wine_ldt_set_flags_def zero_entry_def
      WINE_LDT_FLAGS_ALLOCATED_def WINE_LDT_FLAGS_32BIT_def bit.conj_disj_distrib2 and.assoc)

lemma set_entry_allocated:
  assumes "wine_ldt_get_flags e AND WINE_LDT_FLAGS_ALLOCATED = 0"
  shows "allocated (wine_ldt_set_entry t s e) k = allocated t k"
  using assms
  by (simp add: wine_ldt_set_entry_def Let_def allocated_def bit.conj_disj_distrib2 and.assoc)

lemma SetEntries_loop_allocated:
  "wine_ldt_get_flags e AND WINE_LDT_FLAGS_ALLOCATED = 0 \<Longrightarrow>
   allocated (SetEntries_loop t sel e i n) k = allocated t k"
proof (induction t sel e i n rule: SetEntries_loop.induct)
  case (1 t sel e i n)
  show ?case
  proof (cases "i < n")
    case False
    then show ?thesis by (simp add: SetEntries_loop.simps [of t sel e i n])
  next
    case True
    have p: "wine_ldt_get_flags (next_window e) AND WINE_LDT_FLAGS_ALLOCATED = 0"
      using "1.prems" by (simp add: next_window_flags)
    have "allocated (SetEntries_loop t sel e i n) k =
          allocated (SetEntries_loop (wine_ldt_set_entry t (sel + push_bit AHSHIFT (of_nat i)) e)
             sel (next_window e) (i + 1) n) k"
      using True by (simp add: SetEntries_loop.simps [of t sel e i n])
    also have "\<dots> = allocated (wine_ldt_set_entry t (sel + push_bit AHSHIFT (of_nat i)) e) k"
      by (rule "1.IH" [OF True p])
    also have "\<dots> = allocated t k" by (rule set_entry_allocated [OF "1.prems"])
    finally show ?thesis .
  qed
qed

lemma SetEntries_allocated:
  "allocated (SELECTOR_SetEntries t sel b sz fl) k = allocated t k"
  by (simp add: SELECTOR_SetEntries_def Let_def SetEntries_loop_allocated first_flags_no_alloc)

lemma Realloc_unfold:
  "SELECTOR_ReallocBlock t sel b sz =
     (let szz = (if sz = 0 then 1 else sz);
          entry = wine_ldt_get_entry t sel;
          r = (if old_count t sel < new_count sz then
                 let i = (if LDT_SIZE < sel_index sel + new_count sz then old_count t sel
                          else Realloc_check t (sel_index sel) (old_count t sel) (new_count sz))
                 in if i < new_count sz
                    then SELECTOR_AllocArray (SELECTOR_FreeBlock t sel) (new_count_w sz)
                    else (Realloc_mark t (sel_index sel) (old_count t sel) (new_count sz), sel)
               else if new_count sz < old_count t sel
                    then (SELECTOR_FreeBlock t (sel + push_bit AHSHIFT (new_count_w sz)), sel)
               else (t, sel))
      in (if snd r \<noteq> 0 then SELECTOR_SetEntries (fst r) (snd r) b szz (wine_ldt_get_flags entry)
          else fst r, snd r))"
  unfolding SELECTOR_ReallocBlock_def Let_def old_count_def new_count_def new_count_w_def
    word_less_nat_alt case_prod_beta
  by (rule refl)

lemma Realloc_in_place:
  assumes g: "old_count t sel < new_count sz"
    and cap: "sel_index sel + new_count sz \<le> LDT_SIZE"
    and free: "\<forall>j. old_count t sel \<le> j \<and> j < new_count sz \<longrightarrow> \<not> allocated t (sel_index sel + j)"
  shows "snd (SELECTOR_ReallocBlock t sel b sz) = sel"
    and "\<forall>k. allocated (fst (SELECTOR_ReallocBlock t sel b sz)) k \<longleftrightarrow>
           allocated t k \<or>
           (sel_index sel + old_count t sel \<le> k \<and> k < sel_index sel + new_count sz)"
proof -
  let ?t1 = "Realloc_mark t (sel_index sel) (old_count t sel) (new_count sz)"
  have ck: "Realloc_check t (sel_index sel) (old_count t sel) (new_count sz) = new_count sz"
    by (rule Realloc_check_free [OF free]) (use g in simp)
  have nc: "\<not> LDT_SIZE < sel_index sel + new_count sz" using cap by simp
  have r: "SELECTOR_ReallocBlock t sel b sz =
      (if sel \<noteq> 0 then SELECTOR_SetEntries ?t1 sel b (if sz = 0 then 1 else sz)
                         (wine_ldt_get_flags (wine_ldt_get_entry t sel))
       else ?t1, sel)"
    using g nc by (simp add: Realloc_unfold Let_def ck)
  show "snd (SELECTOR_ReallocBlock t sel b sz) = sel" by (simp add: r)
  have a: "allocated (fst (SELECTOR_ReallocBlock t sel b sz)) k = allocated ?t1 k" for k
    by (simp add: r SetEntries_allocated)
  have m: "allocated ?t1 k \<longleftrightarrow> allocated t k \<or>
           (sel_index sel + old_count t sel \<le> k \<and> k < sel_index sel + new_count sz)" for k
    by (auto simp: Realloc_mark_eq allocated_def mark_flags WINE_LDT_FLAGS_ALLOCATED_def
        bit.conj_disj_distrib2)
  show "\<forall>k. allocated (fst (SELECTOR_ReallocBlock t sel b sz)) k \<longleftrightarrow>
           allocated t k \<or>
           (sel_index sel + old_count t sel \<le> k \<and> k < sel_index sel + new_count sz)"
    by (simp only: a m) simp
qed

lemma FreeBlock_freed:
  assumes "i < old_count t sel"
  shows "\<not> allocated (SELECTOR_FreeBlock t sel) (sel_index (sel + push_bit AHSHIFT (of_nat i)))"
  using assms unfolding SELECTOR_FreeBlock_def old_count_def
  by (auto simp: FreeBlock_loop_allocated)

lemma Realloc_null:
  assumes nz: "sel \<noteq> 0" and r: "SELECTOR_ReallocBlock t sel b sz = (t', 0)"
  shows "old_count t sel < new_count sz"
    and "LDT_SIZE < sel_index sel + new_count sz \<or>
         (\<exists>j. old_count t sel \<le> j \<and> j < new_count sz \<and> allocated t (sel_index sel + j))"
    and "SELECTOR_AllocArray (SELECTOR_FreeBlock t sel) (new_count_w sz) =
           (SELECTOR_FreeBlock t sel, 0)"
    and "t' = SELECTOR_FreeBlock t sel"
    and "\<forall>i. i < old_count t sel \<longrightarrow>
           \<not> allocated t' (sel_index (sel + push_bit AHSHIFT (of_nat i)))"
proof -
  let ?i = "if LDT_SIZE < sel_index sel + new_count sz then old_count t sel
            else Realloc_check t (sel_index sel) (old_count t sel) (new_count sz)"
  let ?A = "SELECTOR_AllocArray (SELECTOR_FreeBlock t sel) (new_count_w sz)"
  from r have s0: "snd (SELECTOR_ReallocBlock t sel b sz) = 0" by simp
  show g: "old_count t sel < new_count sz"
  proof (rule ccontr)
    assume "\<not> old_count t sel < new_count sz"
    then have "snd (SELECTOR_ReallocBlock t sel b sz) = sel"
      by (simp add: Realloc_unfold Let_def)
    with s0 nz show False by simp
  qed
  have lt: "?i < new_count sz"
  proof (rule ccontr)
    assume "\<not> ?i < new_count sz"
    then have "snd (SELECTOR_ReallocBlock t sel b sz) = sel"
      using g by (simp add: Realloc_unfold Let_def)
    with s0 nz show False by simp
  qed
  show "LDT_SIZE < sel_index sel + new_count sz \<or>
         (\<exists>j. old_count t sel \<le> j \<and> j < new_count sz \<and> allocated t (sel_index sel + j))"
  proof (cases "LDT_SIZE < sel_index sel + new_count sz")
    case True
    then show ?thesis by simp
  next
    case False
    with lt have "Realloc_check t (sel_index sel) (old_count t sel) (new_count sz) < new_count sz"
      by simp
    from Realloc_check_found [OF this] show ?thesis by blast
  qed
  have e: "SELECTOR_ReallocBlock t sel b sz =
      (if snd ?A \<noteq> 0 then SELECTOR_SetEntries (fst ?A) (snd ?A) b (if sz = 0 then 1 else sz)
                         (wine_ldt_get_flags (wine_ldt_get_entry t sel))
       else fst ?A, snd ?A)"
    using g lt by (simp add: Realloc_unfold Let_def)
  with r have sA: "snd ?A = 0" by simp
  with e r have fA: "fst ?A = t'" by simp
  from sA fA have A: "?A = (t', 0)" by (simp add: prod_eq_iff)
  from AllocArray_null [OF A] show t': "t' = SELECTOR_FreeBlock t sel" .
  from A t' show "?A = (SELECTOR_FreeBlock t sel, 0)" by simp
  show "\<forall>i. i < old_count t sel \<longrightarrow>
           \<not> allocated t' (sel_index (sel + push_bit AHSHIFT (of_nat i)))"
    unfolding t' using FreeBlock_freed by blast
qed

text \<open>
  Claim C4. Growing a block with \<open>SELECTOR_ReallocBlock\<close> when the slots after it, from
  \<open>oldcount\<close> up to \<open>newcount\<close>, are within \<open>LDT_SIZE\<close> and free returns the same
  selector, and the slots allocated afterwards are those allocated before and these added
  ones. For a non-null selector, \<open>SELECTOR_ReallocBlock\<close> returns the null selector only
  in the growing case, when the slots after the block are out of capacity or not all free
  and \<open>SELECTOR_AllocArray\<close> for the new count fails after the old block has been freed;
  the table is then the one \<open>SELECTOR_FreeBlock\<close> left, in which every slot of the old
  block is free.
\<close>

theorem realloc_block_grow:
  "(old_count t sel < new_count sz \<and> sel_index sel + new_count sz \<le> LDT_SIZE \<and>
    (\<forall>j. old_count t sel \<le> j \<and> j < new_count sz \<longrightarrow> \<not> allocated t (sel_index sel + j)) \<longrightarrow>
      snd (SELECTOR_ReallocBlock t sel b sz) = sel \<and>
      (\<forall>k. allocated (fst (SELECTOR_ReallocBlock t sel b sz)) k \<longleftrightarrow>
           allocated t k \<or>
           (sel_index sel + old_count t sel \<le> k \<and> k < sel_index sel + new_count sz))) \<and>
   (sel \<noteq> 0 \<and> SELECTOR_ReallocBlock t sel b sz = (t', 0) \<longrightarrow>
      old_count t sel < new_count sz \<and>
      (LDT_SIZE < sel_index sel + new_count sz \<or>
       (\<exists>j. old_count t sel \<le> j \<and> j < new_count sz \<and> allocated t (sel_index sel + j))) \<and>
      SELECTOR_AllocArray (SELECTOR_FreeBlock t sel) (new_count_w sz) =
        (SELECTOR_FreeBlock t sel, 0) \<and>
      t' = SELECTOR_FreeBlock t sel \<and>
      (\<forall>i. i < old_count t sel \<longrightarrow>
           \<not> allocated t' (sel_index (sel + push_bit AHSHIFT (of_nat i)))))"
proof (intro conjI impI)
  assume a: "old_count t sel < new_count sz \<and> sel_index sel + new_count sz \<le> LDT_SIZE \<and>
    (\<forall>j. old_count t sel \<le> j \<and> j < new_count sz \<longrightarrow> \<not> allocated t (sel_index sel + j))"
  then have g: "old_count t sel < new_count sz"
    and cap: "sel_index sel + new_count sz \<le> LDT_SIZE"
    and free: "\<forall>j. old_count t sel \<le> j \<and> j < new_count sz \<longrightarrow> \<not> allocated t (sel_index sel + j)"
    by blast+
  show "snd (SELECTOR_ReallocBlock t sel b sz) = sel"
    by (rule Realloc_in_place(1) [OF g cap free])
  show "\<forall>k. allocated (fst (SELECTOR_ReallocBlock t sel b sz)) k \<longleftrightarrow>
           allocated t k \<or>
           (sel_index sel + old_count t sel \<le> k \<and> k < sel_index sel + new_count sz)"
    by (rule Realloc_in_place(2) [OF g cap free])
next
  assume a: "sel \<noteq> 0 \<and> SELECTOR_ReallocBlock t sel b sz = (t', 0)"
  then have nz: "sel \<noteq> 0" and r: "SELECTOR_ReallocBlock t sel b sz = (t', 0)" by blast+
  note n = Realloc_null [OF nz r]
  show "old_count t sel < new_count sz" by (rule n(1))
  show "LDT_SIZE < sel_index sel + new_count sz \<or>
       (\<exists>j. old_count t sel \<le> j \<and> j < new_count sz \<and> allocated t (sel_index sel + j))"
    by (rule n(2))
  show "SELECTOR_AllocArray (SELECTOR_FreeBlock t sel) (new_count_w sz) =
        (SELECTOR_FreeBlock t sel, 0)" by (rule n(3))
  show "t' = SELECTOR_FreeBlock t sel" by (rule n(4))
  show "\<forall>i. i < old_count t sel \<longrightarrow>
           \<not> allocated t' (sel_index (sel + push_bit AHSHIFT (of_nat i)))" by (rule n(5))
qed

lemma seg_ldt_counts:
  "old_count seg_ldt 0x9f = 1" "old_count seg_ldt 0x8f = 1"
  "new_count 0x10001 = 2" "new_count 0x20000000 = 8192"
  "\<not> allocated seg_ldt 20"
  by (simp_all add: old_count_def new_count_def new_count_w_def get_sel_count_def seg_ldt_def
      sel_index_def AHSHIFT_def allocated_def)

lemma Realloc_fails_example:
  "SELECTOR_ReallocBlock seg_ldt 0x8f 0 0x20000000 = (SELECTOR_FreeBlock seg_ldt 0x8f, 0)"
proof -
  have g: "old_count seg_ldt 0x8f < new_count 0x20000000" by (simp add: seg_ldt_counts)
  have cap: "LDT_SIZE < sel_index 0x8f + new_count 0x20000000"
    by (simp add: seg_ldt_counts seg_ldt_facts LDT_SIZE_def)
  have "LDT_SIZE - FIRST_LDT_ENTRY_TO_ALLOC < unat (new_count_w 0x20000000)"
    using seg_ldt_counts(4) by (simp add: new_count_def LDT_SIZE_def FIRST_LDT_ENTRY_TO_ALLOC_def)
  then have A: "SELECTOR_AllocArray (SELECTOR_FreeBlock seg_ldt 0x8f) (new_count_w 0x20000000) =
      (SELECTOR_FreeBlock seg_ldt 0x8f, 0)"
    by (rule AllocArray_too_long)
  show ?thesis using g cap by (simp add: Realloc_unfold Let_def A)
qed

theorem realloc_block_grow_witness:
  "old_count seg_ldt 0x9f < new_count 0x10001 \<and> sel_index 0x9f + new_count 0x10001 \<le> LDT_SIZE \<and>
   \<not> allocated seg_ldt 20 \<and>
   snd (SELECTOR_ReallocBlock seg_ldt 0x9f 0x300000 0x10001) = 0x9f \<and>
   allocated (fst (SELECTOR_ReallocBlock seg_ldt 0x9f 0x300000 0x10001)) 20 \<and>
   (0x8f :: WORD) \<noteq> 0 \<and>
   SELECTOR_ReallocBlock seg_ldt 0x8f 0 0x20000000 = (SELECTOR_FreeBlock seg_ldt 0x8f, 0) \<and>
   allocated seg_ldt (sel_index (0x8f + push_bit AHSHIFT (of_nat 0))) \<and>
   \<not> allocated (SELECTOR_FreeBlock seg_ldt 0x8f) (sel_index (0x8f + push_bit AHSHIFT (of_nat 0)))"
proof -
  have g: "old_count seg_ldt 0x9f < new_count 0x10001" by (simp add: seg_ldt_counts)
  have cap: "sel_index 0x9f + new_count 0x10001 \<le> LDT_SIZE"
    by (simp add: seg_ldt_counts seg_ldt_facts LDT_SIZE_def)
  have f20: "\<not> allocated seg_ldt 20" by (rule seg_ldt_counts)
  have free: "\<forall>j. old_count seg_ldt 0x9f \<le> j \<and> j < new_count 0x10001 \<longrightarrow>
      \<not> allocated seg_ldt (sel_index 0x9f + j)"
  proof (intro allI impI)
    fix j assume "old_count seg_ldt 0x9f \<le> j \<and> j < new_count 0x10001"
    then have "j = 1" by (simp add: seg_ldt_counts)
    then show "\<not> allocated seg_ldt (sel_index 0x9f + j)" using f20 by (simp add: seg_ldt_facts)
  qed
  from g cap free realloc_block_grow [of seg_ldt "0x9f" "0x10001" "0x300000"]
  have p1: "snd (SELECTOR_ReallocBlock seg_ldt 0x9f 0x300000 0x10001) = 0x9f"
    and p2: "\<forall>k. allocated (fst (SELECTOR_ReallocBlock seg_ldt 0x9f 0x300000 0x10001)) k \<longleftrightarrow>
           allocated seg_ldt k \<or>
           (sel_index 0x9f + old_count seg_ldt 0x9f \<le> k \<and> k < sel_index 0x9f + new_count 0x10001)"
    by blast+
  from p2 have p3: "allocated (fst (SELECTOR_ReallocBlock seg_ldt 0x9f 0x300000 0x10001)) 20"
    by (simp add: seg_ldt_counts seg_ldt_facts)
  have nz: "(0x8f :: WORD) \<noteq> 0" by simp
  note r = Realloc_fails_example
  from nz r realloc_block_grow [of seg_ldt "0x8f" "0x20000000" 0 "SELECTOR_FreeBlock seg_ldt 0x8f"]
  have q: "\<forall>i. i < old_count seg_ldt 0x8f \<longrightarrow>
     \<not> allocated (SELECTOR_FreeBlock seg_ldt 0x8f) (sel_index (0x8f + push_bit AHSHIFT (of_nat i)))"
    by blast
  have "(0 :: nat) < old_count seg_ldt 0x8f" by (simp add: seg_ldt_counts)
  with q have q1: "\<not> allocated (SELECTOR_FreeBlock seg_ldt 0x8f)
      (sel_index (0x8f + push_bit AHSHIFT (of_nat 0)))" by blast
  have q0: "allocated seg_ldt (sel_index (0x8f + push_bit AHSHIFT (of_nat 0)))"
    by (simp add: seg_ldt_facts)
  from g cap f20 p1 p3 nz r q0 q1 show ?thesis by blast
qed

section \<open>Raw memory access\<close>

lemma Memory_zero:
  assumes "\<not> allocated t (sel_index sel) \<or> ldt_limit t (sel_index sel) < offset"
  shows "MemoryRead16 t m sel offset buffer count = (m, 0)"
    and "MemoryWrite16 t m sel offset buffer count = (m, 0)"
  using assms by (auto simp: MemoryRead16_def MemoryWrite16_def Let_def allocated_def)

lemma clamp_count_in_range:
  assumes le: "offset \<le> ldt_limit t index"
    and nw: "unat offset + unat count < 2 ^ 32"
    and nl: "unat (ldt_limit t index) + 1 < 2 ^ 32"
  shows "unat (clamp_count t index offset count) =
           min (unat count) (unat (ldt_limit t index) + 1 - unat offset)"
proof -
  let ?l = "ldt_limit t index"
  have a: "unat (offset + count) = unat offset + unat count"
    using nw by (simp add: unat_add_lem [THEN iffD1])
  have b: "unat (?l + 1) = unat ?l + 1"
    using nl by (simp add: unat_add_lem [THEN iffD1])
  have c: "unat offset \<le> unat ?l" using le by (simp add: word_le_nat_alt)
  have "offset \<le> ?l + 1" using c b by (simp add: word_le_nat_alt)
  then have d: "unat (?l + 1 - offset) = unat ?l + 1 - unat offset"
    by (simp add: unat_sub b)
  show ?thesis
    using a b c d by (auto simp: clamp_count_def word_less_nat_alt min_def)
qed

lemma Memory_in_range:
  assumes al: "allocated t (sel_index sel)"
    and le: "offset \<le> ldt_limit t (sel_index sel)"
    and nw: "unat offset + unat count < 2 ^ 32"
    and nl: "unat (ldt_limit t (sel_index sel)) + 1 < 2 ^ 32"
  shows "unat (snd (MemoryRead16 t m sel offset buffer count)) =
           min (unat count) (unat (ldt_limit t (sel_index sel)) + 1 - unat offset)"
    and "unat (snd (MemoryWrite16 t m sel offset buffer count)) =
           min (unat count) (unat (ldt_limit t (sel_index sel)) + 1 - unat offset)"
    and "fst (MemoryWrite16 t m sel offset buffer count) =
           memcpy m (ldt_base t (sel_index sel) + offset) buffer
             (snd (MemoryWrite16 t m sel offset buffer count))"
proof -
  have a: "\<not> ldt_flags t (sel_index sel) AND WINE_LDT_FLAGS_ALLOCATED = 0"
    using al by (simp add: allocated_def)
  have b: "\<not> ldt_limit t (sel_index sel) < offset" using le by simp
  note c = clamp_count_in_range [OF le nw nl]
  show "unat (snd (MemoryRead16 t m sel offset buffer count)) =
           min (unat count) (unat (ldt_limit t (sel_index sel)) + 1 - unat offset)"
    using a b by (simp add: MemoryRead16_def Let_def c)
  show "unat (snd (MemoryWrite16 t m sel offset buffer count)) =
           min (unat count) (unat (ldt_limit t (sel_index sel)) + 1 - unat offset)"
    using a b by (simp add: MemoryWrite16_def Let_def c)
  show "fst (MemoryWrite16 t m sel offset buffer count) =
           memcpy m (ldt_base t (sel_index sel) + offset) buffer
             (snd (MemoryWrite16 t m sel offset buffer count))"
    using a b by (simp add: MemoryWrite16_def Let_def)
qed

text \<open>
  Claim C10 at a count that wraps. In a segment of limit 0xFFF, a transfer of 0xFFFFFFF8
  bytes from offset 0x10 is not clamped, because \<open>offset + count\<close> wraps to 8: both
  functions return 0xFFFFFFF8 instead of \<open>limit + 1 - offset = 0xFF0\<close>, and the write
  stores the buffer's byte 0xFF0 at the address one past the segment's limit.
\<close>

theorem memory_count_overflow:
  "allocated seg_ldt (sel_index 0x8f) \<and> \<not> ldt_limit seg_ldt (sel_index 0x8f) < 0x10 \<and>
   ldt_limit seg_ldt (sel_index 0x8f) + 1 - 0x10 = 0xFF0 \<and>
   snd (MemoryRead16 seg_ldt m 0x8f 0x10 buffer 0xFFFFFFF8) = 0xFFFFFFF8 \<and>
   snd (MemoryWrite16 seg_ldt m 0x8f 0x10 buffer 0xFFFFFFF8) = 0xFFFFFFF8 \<and>
   fst (MemoryWrite16 seg_ldt m 0x8f 0x10 buffer 0xFFFFFFF8)
     (ldt_base seg_ldt (sel_index 0x8f) + ldt_limit seg_ldt (sel_index 0x8f) + 1) =
     m (buffer + 0xFF0)"
  by (simp add: MemoryRead16_def MemoryWrite16_def clamp_count_def memcpy_def Let_def
      seg_ldt_def sel_index_def AHSHIFT_def allocated_def WINE_LDT_FLAGS_ALLOCATED_def)

end
